theory Spec2Isabelle
  imports Main "HOL-Library.AList"
begin

section \<open>Data model of cleanVm\<close>

text \<open>
  The development follows \<^verbatim>\<open>cleanVm\<close> and its helpers (\<^verbatim>\<open>checkAliases\<close>,
  \<^verbatim>\<open>mergeVhdChain\<close>, \<^verbatim>\<open>computeVhdsSize\<close>) stage by stage. Paths are strings. The
  storage handler and the VHD library are outside the repository: every answer they give
  is a field of the record \<open>world\<close>, and every mutating call the code issues against them
  is appended to an event trace, together with the warnings passed to \<^verbatim>\<open>logWarn\<close>.
  Calls to \<^verbatim>\<open>logInfo\<close> are left out of the trace. A call against the backend that the
  code does not guard is taken to succeed.

  A JavaScript \<^verbatim>\<open>Set\<close> is a list (insertion order is iteration order), \<^verbatim>\<open>delete\<close> is
  \<open>removeAll\<close>, \<^verbatim>\<open>has\<close> is membership. An object used as a dictionary whose key order
  matters is an association list (\<open>AList.update\<close> keeps the position of an existing key
  and appends a new one, as property order does for keys that are not array indices;
  paths never are). \<^verbatim>\<open>undefined\<close> is \<open>None\<close>. The callbacks of one \<^verbatim>\<open>asyncMap\<close> are
  run in list order.
\<close>

type_synonym path = string
type_synonym uuid = string

datatype disk_type = FIXED | DYNAMIC | DIFFERENCING

text \<open>What \<^verbatim>\<open>openVhd\<close> reads from a disk: \<^verbatim>\<open>footer.diskType\<close>, what \<^verbatim>\<open>UUID.stringify\<close>
  makes of \<^verbatim>\<open>footer.uuid\<close> (\<open>None\<close> when it throws, as it does on a malformed UUID), and
  \<^verbatim>\<open>header.parentUnicodeName\<close> already resolved against the directory of the disk. An
  opened disk is the pair of its \<^verbatim>\<open>_path\<close> and these.\<close>

record vhd_meta =
  diskType :: disk_type
  footer_uuid :: "uuid option"
  parentName :: path

type_synonym vhd = "path \<times> vhd_meta"

text \<open>An error of \<^verbatim>\<open>openVhd\<close> either has the code \<^verbatim>\<open>ERR_ASSERTION\<close> or another one;
  the error thrown by the check itself carries \<^verbatim>\<open>parent\<close>, \<^verbatim>\<open>child1\<close> and \<^verbatim>\<open>child2\<close>
  and no code, and neither does the \<^verbatim>\<open>TypeError\<close> of \<^verbatim>\<open>UUID.stringify\<close>.\<close>

datatype open_error = ERR_ASSERTION | ERR_OTHER

datatype check_error =
    OpenError open_error
  | MultipleChildren path path path
  | InvalidUuid

text \<open>\<^verbatim>\<open>containsAllDataOf\<close> reads the blocks of two disks and, like every read of the VHD
  library that this file awaits (\<^verbatim>\<open>openVhd\<close>, \<^verbatim>\<open>getSize\<close>), answers with a Promise. A
  Promise is an object, and an object counts as true in a condition whatever it will
  resolve to.\<close>

datatype 'a promise = Promise 'a

fun truthy :: "'a promise \<Rightarrow> bool" where
  "truthy (Promise x) = True"

datatype metadata =
    Full path "nat option"
  | Delta "path list" "nat option"
  | OtherMode "nat option"

fun stored_size :: "metadata \<Rightarrow> nat option" where
  "stored_size (Full x s) = s"
| "stored_size (Delta vs s) = s"
| "stored_size (OtherMode s) = s"

fun set_size :: "metadata \<Rightarrow> nat option \<Rightarrow> metadata" where
  "set_size (Full x _) s = Full x s"
| "set_size (Delta vs _) s = Delta vs s"
| "set_size (OtherMode _) s = OtherMode s"

datatype warning =
    VhdCheckError path check_error
  | UuidDuplicated uuid
  | ShouldDelete path
  | SameIdsDifferentContent
  | OrphanMergeState path path
  | AliasNonVhdTarget path path
  | BrokenAliasTarget path path
  | ErrorDeletingAliasTarget path path
  | NoAliasReferencesVhd path
  | ParentVhdMissing path path
  | XvaMightBeBroken path
  | FailedToReadMetadata path
  | XvaMissing path path
  | VhdsMissing path "path list"
  | UnusedVhd path
  | UnusedXva path
  | IncorrectBackupSize path "nat option" nat
  | FailedToGetBackupSize path
  | FailedToUpdateBackupSize path

text \<open>The calls that change the backend: \<^verbatim>\<open>handler.unlink\<close> and \<^verbatim>\<open>VhdAbstract.unlink\<close>,
  \<^verbatim>\<open>handler.writeFile\<close>, and \<^verbatim>\<open>mergeVhd\<close> (which writes, deletes and renames inside the
  VHD library; \<^verbatim>\<open>cleanVm\<close> itself never calls \<^verbatim>\<open>rename\<close>).\<close>

datatype event =
    Unlink path
  | WriteFile path metadata
  | MergeVhd "path option" "path option list" bool
  | Warn warning

fun is_mutation :: "event \<Rightarrow> bool" where
  "is_mutation (Warn _) = False"
| "is_mutation _ = True"

datatype unlink_outcome = Unlinked | ENOENT | UnlinkFailed

datatype size_outcome = SizeFailed | NotComputed | Computed nat

text \<open>What \<^verbatim>\<open>openVhd\<close> returns is an instance of \<^verbatim>\<open>VhdFile\<close> or of another class of the
  VHD library (a VHD directory).\<close>

datatype vhd_class = VhdFile | VhdDirectory

datatype js_error =
    StackOverflow
  | AssertionFailed
  | MergeFailed
  | MetadataUnreadable path

record world =
  listedVhds :: "path list"
  listedInterrupted :: "(path \<times> path) list"
  listedAliases :: "(path \<times> path list) list"
  openVhd :: "bool \<Rightarrow> path \<Rightarrow> open_error + vhd_meta"
  containsAllDataOf :: "vhd \<Rightarrow> vhd \<Rightarrow> bool promise"
  resolveVhdAlias :: "path \<Rightarrow> path"
  isVhdFile :: "path \<Rightarrow> bool"
  opensTarget :: "path \<Rightarrow> bool"
  unlinkAlias :: "path \<Rightarrow> unlink_outcome"
  listDir :: "path \<Rightarrow> path list"
  listEntries :: "path list"
  isMetadataFile :: "path \<Rightarrow> bool"
  isXvaFile :: "path \<Rightarrow> bool"
  isXvaSumFile :: "path \<Rightarrow> bool"
  isValidXva :: "path \<Rightarrow> bool"
  readMetadata :: "path \<Rightarrow> metadata option"
  mergeVhd :: "path option \<Rightarrow> path option list \<Rightarrow> nat option"
  getSize :: "path \<Rightarrow> nat option"
  openClass :: "path \<Rightarrow> vhd_class option"
  vhdGetSize :: "path \<Rightarrow> nat option"
  writeFileFails :: "path \<Rightarrow> bool"
  stackDepth :: nat

section \<open>Removing broken VHDs (the first \<^verbatim>\<open>asyncMap\<close> of cleanVm)\<close>

record scan =
  vhds :: "path list"
  vhdById :: "uuid \<rightharpoonup> vhd"
  vhdParents :: "(path \<times> path) list"
  vhdChildren :: "path \<rightharpoonup> path"
  trace :: "event list"

definition emit :: "event list \<Rightarrow> scan \<Rightarrow> scan" where
  "emit es s = s\<lparr>trace := trace s @ es\<rparr>"

text \<open>\<^verbatim>\<open>vhdById.set(UUID.stringify(vhdKept.footer.uuid), vhdKept)\<close>, the last statement of
  the callback; \<^verbatim>\<open>UUID.stringify\<close> throws a \<^verbatim>\<open>TypeError\<close> on a malformed UUID.\<close>

definition indexVhd :: "scan \<Rightarrow> vhd \<Rightarrow> check_error option \<times> scan" where
  "indexVhd s vhdKept =
     (case footer_uuid (snd vhdKept) of
        None \<Rightarrow> (Some InvalidUuid, s)
      | Some u \<Rightarrow> (None, s\<lparr>vhdById := (vhdById s)(u \<mapsto> vhdKept)\<rparr>))"

text \<open>Detection of disks with the same UUID (the second half of the callback). The two
  conditions are the values of the calls of \<^verbatim>\<open>containsAllDataOf\<close> themselves: the callback
  is not an \<^verbatim>\<open>async\<close> function and awaits nothing.\<close>

definition dedupVhd :: "world \<Rightarrow> scan \<Rightarrow> vhd \<Rightarrow> check_error option \<times> scan" where
  "dedupVhd w s v =
     (case footer_uuid (snd v) of
        None \<Rightarrow> (Some InvalidUuid, s)
      | Some u \<Rightarrow>
          (case vhdById s u of
             None \<Rightarrow> indexVhd s v
           | Some duplicate \<Rightarrow>
               (let s1 = emit [Warn (UuidDuplicated u)] s in
                if truthy (containsAllDataOf w duplicate v) then
                  indexVhd
                    ((emit [Warn (ShouldDelete (fst v))] s1)
                       \<lparr>vhds := removeAll (fst v) (vhds s1)\<rparr>)
                    duplicate
                else if truthy (containsAllDataOf w v duplicate) then
                  indexVhd
                    ((emit [Warn (ShouldDelete (fst duplicate))] s1)
                       \<lparr>vhds := removeAll (fst duplicate) (vhds s1)\<rparr>)
                    v
                else indexVhd (emit [Warn SameIdsDifferentContent] s1) v)))"

text \<open>The callback given to \<^verbatim>\<open>Disposable.use\<close>: it registers the parent of a differencing
  disk before it looks for an earlier child, so the entry of \<^verbatim>\<open>vhdParents\<close> stays when it
  throws; the child link is registered before the UUID is read.\<close>

definition useVhd :: "world \<Rightarrow> scan \<Rightarrow> vhd \<Rightarrow> check_error option \<times> scan" where
  "useVhd w s v =
     (if diskType (snd v) = DIFFERENCING then
        (let parent = parentName (snd v);
             s1 = s\<lparr>vhdParents := AList.update (fst v) parent (vhdParents s)\<rparr>
         in case vhdChildren s1 parent of
              Some child1 \<Rightarrow> (Some (MultipleChildren parent child1 (fst v)), s1)
            | None \<Rightarrow> dedupVhd w (s1\<lparr>vhdChildren := (vhdChildren s1)(parent \<mapsto> fst v)\<rparr>) v)
      else dedupVhd w s v)"

text \<open>The \<^verbatim>\<open>catch\<close> block.\<close>

definition vhdCheckFailed :: "bool \<Rightarrow> scan \<Rightarrow> path \<Rightarrow> check_error \<Rightarrow> scan" where
  "vhdCheckFailed remove s p e =
     emit (Warn (VhdCheckError p e) #
           (if e = OpenError ERR_ASSERTION \<and> remove then [Unlink p] else []))
       (s\<lparr>vhds := removeAll p (vhds s)\<rparr>)"

definition afterOpen :: "world \<Rightarrow> bool \<Rightarrow> scan \<Rightarrow> path \<Rightarrow> open_error + vhd_meta \<Rightarrow> scan" where
  "afterOpen w remove s p r =
     (case r of
        Inl e \<Rightarrow> vhdCheckFailed remove s p (OpenError e)
      | Inr m \<Rightarrow>
          (case useVhd w s (p, m) of
             (Some e, s1) \<Rightarrow> vhdCheckFailed remove s1 p e
           | (None, s1) \<Rightarrow> s1))"

definition checkVhd :: "world \<Rightarrow> bool \<Rightarrow> (path \<times> path) list \<Rightarrow> scan \<Rightarrow> path \<Rightarrow> scan" where
  "checkVhd w remove interruptedVhds s p =
     afterOpen w remove s p (openVhd w (map_of interruptedVhds p = None) p)"

definition removeBrokenVhds ::
  "world \<Rightarrow> bool \<Rightarrow> (path \<times> path) list \<Rightarrow> path list \<Rightarrow> scan" where
  "removeBrokenVhds w remove interruptedVhds ps =
     foldl (checkVhd w remove interruptedVhds)
       \<lparr>vhds = ps, vhdById = Map.empty, vhdParents = [], vhdChildren = Map.empty, trace = []\<rparr>
       ps"

section \<open>Interrupted merge states of missing VHDs\<close>

text \<open>The loop over \<^verbatim>\<open>interruptedVhds.keys()\<close>; the association list stands for the
  \<^verbatim>\<open>Map\<close>, so each key comes with the state path \<^verbatim>\<open>get\<close> returns for it. The result is the
  map that is left and the events of the loop.\<close>

fun removeOrphanMergeStates ::
  "bool \<Rightarrow> path list \<Rightarrow> (path \<times> path) list \<Rightarrow> (path \<times> path) list \<times> event list" where
  "removeOrphanMergeStates remove vs [] = ([], [])"
| "removeOrphanMergeStates remove vs ((interruptedVhd, statePath) # rest) =
     (let (kept, es) = removeOrphanMergeStates remove vs rest in
      if interruptedVhd \<notin> set vs then
        (kept,
         Warn (OrphanMergeState statePath interruptedVhd) #
         (if remove then [Unlink statePath] else []) @ es)
      else ((interruptedVhd, statePath) # kept, es))"

section \<open>checkAliases\<close>

text \<open>The loop over the aliases returns \<^verbatim>\<open>aliasFound\<close> and its events. \<^verbatim>\<open>opensTarget\<close> says
  whether \<^verbatim>\<open>openVhd\<close> succeeds on the target (an error of \<^verbatim>\<open>dispose\<close> is swallowed);
  \<^verbatim>\<open>unlinkAlias\<close> is the outcome of \<^verbatim>\<open>VhdAbstract.unlink\<close> on an alias, whose errors the
  code catches.\<close>

fun checkAliasLoop :: "world \<Rightarrow> bool \<Rightarrow> path list \<Rightarrow> path list \<times> event list" where
  "checkAliasLoop w remove [] = ([], [])"
| "checkAliasLoop w remove (alias # rest) =
     (let target = resolveVhdAlias w alias;
          (aliasFound, es) = checkAliasLoop w remove rest
      in if \<not> isVhdFile w target then
           (aliasFound,
            Warn (AliasNonVhdTarget alias target) #
            (if remove then [Unlink target, Unlink alias] else []) @ es)
         else if \<not> opensTarget w target then
           (aliasFound,
            Warn (BrokenAliasTarget alias target) #
            (if remove then
               Unlink alias #
               (if unlinkAlias w alias = UnlinkFailed
                then [Warn (ErrorDeletingAliasTarget alias target)] else [])
             else []) @ es)
         else (target # aliasFound, es))"

definition checkAliases :: "world \<Rightarrow> bool \<Rightarrow> path list \<Rightarrow> path \<Rightarrow> event list" where
  "checkAliases w remove aliasPaths targetDataRepository =
     (let (aliasFound, es) = checkAliasLoop w remove aliasPaths
      in es @
         concat (map (\<lambda>p. if p \<notin> set aliasFound
                           then Warn (NoAliasReferencesVhd p) # (if remove then [Unlink p] else [])
                           else [])
                     (listDir w targetDataRepository)))"

definition checkAllAliases :: "world \<Rightarrow> bool \<Rightarrow> (path \<times> path list) list \<Rightarrow> event list" where
  "checkAllAliases w remove aliases =
     concat (map (\<lambda>(dir, aliasPaths). checkAliases w remove aliasPaths (dir @ ''/data'')) aliases)"

section \<open>Removing VHDs with missing ancestors\<close>

text \<open>\<^verbatim>\<open>deleteIfOrphan\<close> works on \<^verbatim>\<open>vhdParents\<close>, \<^verbatim>\<open>vhds\<close> and the list of deletions. It
  deletes its entry of \<^verbatim>\<open>vhdParents\<close> before it recurses into the parent, which is why it
  terminates.\<close>

type_synonym pruning = "(path \<times> path) list \<times> path list \<times> event list"

lemma length_delete_less:
  "map_of al k = Some v \<Longrightarrow> length (AList.delete k al) < length al"
  unfolding AList.delete_eq
  by (rule length_filter_less [of "(k, v)"]) (auto dest: map_of_SomeD)

function deleteIfOrphan :: "bool \<Rightarrow> pruning \<Rightarrow> path \<Rightarrow> pruning" where
  "deleteIfOrphan remove (parents, vs, es) vhdPath =
     (case map_of parents vhdPath of
        None \<Rightarrow> (parents, vs, es)
      | Some parent \<Rightarrow>
          (case deleteIfOrphan remove (AList.delete vhdPath parents, vs, es) parent of
             (parents1, vs1, es1) \<Rightarrow>
               if parent \<notin> set vs1 then
                 (parents1, removeAll vhdPath vs1,
                  es1 @ Warn (ParentVhdMissing parent vhdPath) #
                        (if remove then [Unlink vhdPath] else []))
               else (parents1, vs1, es1)))"
  by pat_completeness auto
termination
  by (relation "measure (\<lambda>(remove, (parents, vs, es), vhdPath). length parents)")
     (auto simp: length_delete_less)

text \<open>The \<^verbatim>\<open>for ... in vhdParents\<close> loop: a key deleted before it is visited is not
  visited, and \<^verbatim>\<open>deleteIfOrphan\<close> returns at once on a key that is no longer there, so
  the loop is a fold over the keys the object had when the loop began.\<close>

definition removeOrphans :: "bool \<Rightarrow> (path \<times> path) list \<Rightarrow> path list \<Rightarrow> pruning" where
  "removeOrphans remove parents vs =
     foldl (deleteIfOrphan remove) (parents, vs, []) (map fst parents)"

section \<open>Chains of unused VHDs\<close>

text \<open>A chain is an array of paths; the chain forced by an interrupted merge holds
  \<^verbatim>\<open>vhdChildren[parent]\<close>, which may be \<^verbatim>\<open>undefined\<close>. \<^verbatim>\<open>vhdChainsToMerge\<close> maps a path to a
  chain or to \<^verbatim>\<open>undefined\<close> (the key is there in both cases).\<close>

type_synonym chain = "path option list"

record chaining =
  vhdChainsToMerge :: "(path \<times> chain option) list"
  toCheck :: "path list"
  deletions :: "event list"

definition reportUnused :: "bool \<Rightarrow> chaining \<Rightarrow> path \<Rightarrow> chaining" where
  "reportUnused remove c v =
     c\<lparr>deletions := deletions c @ Warn (UnusedVhd v) # (if remove then [Unlink v] else [])\<rparr>"

text \<open>\<^verbatim>\<open>getUsedChildChainOrDelete\<close> follows \<^verbatim>\<open>vhdChildren\<close> with nothing that stops it on
  a cycle of unused disks; the first argument is the room left on the call stack, and
  running out of it is the \<^verbatim>\<open>RangeError\<close> of the engine.\<close>

fun getUsedChildChainOrDelete ::
  "nat \<Rightarrow> bool \<Rightarrow> path list \<Rightarrow> (path \<rightharpoonup> path) \<Rightarrow> chaining \<Rightarrow> path
     \<Rightarrow> (js_error + chain option) \<times> chaining" where
  "getUsedChildChainOrDelete 0 remove unusedVhds children c v = (Inl StackOverflow, c)"
| "getUsedChildChainOrDelete (Suc d) remove unusedVhds children c v =
     (case map_of (vhdChainsToMerge c) v of
        Some ch \<Rightarrow> (Inr ch, c\<lparr>vhdChainsToMerge := AList.delete v (vhdChainsToMerge c)\<rparr>)
      | None \<Rightarrow>
          if v \<notin> set unusedVhds then (Inr (Some [Some v]), c)
          else
            (let c1 = c\<lparr>toCheck := removeAll v (toCheck c)\<rparr> in
             case children v of
               None \<Rightarrow> (Inr None, reportUnused remove c1 v)
             | Some child \<Rightarrow>
                 (case getUsedChildChainOrDelete d remove unusedVhds children c1 child of
                    (Inl e, c2) \<Rightarrow> (Inl e, c2)
                  | (Inr (Some ch), c2) \<Rightarrow> (Inr (Some (Some v # ch)), c2)
                  | (Inr None, c2) \<Rightarrow> (Inr None, reportUnused remove c2 v))))"

text \<open>\<^verbatim>\<open>toCheck.forEach\<close>: an element deleted from the set before its turn is skipped.\<close>

fun checkUnused ::
  "nat \<Rightarrow> bool \<Rightarrow> path list \<Rightarrow> (path \<rightharpoonup> path) \<Rightarrow> chaining \<Rightarrow> path list
     \<Rightarrow> js_error option \<times> chaining" where
  "checkUnused d remove unusedVhds children c [] = (None, c)"
| "checkUnused d remove unusedVhds children c (v # rest) =
     (if v \<notin> set (toCheck c) then checkUnused d remove unusedVhds children c rest
      else
        (case getUsedChildChainOrDelete d remove unusedVhds children c v of
           (Inl e, c1) \<Rightarrow> (Some e, c1)
         | (Inr ch, c1) \<Rightarrow>
             checkUnused d remove unusedVhds children
               (c1\<lparr>vhdChainsToMerge := AList.update v ch (vhdChainsToMerge c1)\<rparr>) rest))"

text \<open>The chains forced by the interrupted merges, in the order of the keys.\<close>

fun forceInterrupted ::
  "(path \<rightharpoonup> path) \<Rightarrow> (path \<times> chain option) list \<Rightarrow> path list
     \<Rightarrow> (path \<times> chain option) list" where
  "forceInterrupted children tbl [] = tbl"
| "forceInterrupted children tbl (parent # rest) =
     forceInterrupted children
       (AList.update parent (Some [children parent, Some parent]) tbl) rest"

text \<open>\<^verbatim>\<open>Object.values(vhdChainsToMerge)\<close> without the \<^verbatim>\<open>undefined\<close> ones.\<close>

definition definedChains :: "(path \<times> chain option) list \<Rightarrow> chain list" where
  "definedChains tbl = concat (map (\<lambda>(k, ch). case ch of None \<Rightarrow> [] | Some x \<Rightarrow> [x]) tbl)"

text \<open>The block that fills \<^verbatim>\<open>toMerge\<close> and \<^verbatim>\<open>unusedVhdsDeletion\<close>. The table of chains
  after \<^verbatim>\<open>toCheck.forEach\<close> is \<open>usageChains\<close>; when the walk throws there is no
  \<^verbatim>\<open>toMerge\<close>, and the deletions begun so far stay begun.\<close>

definition usageChains ::
  "nat \<Rightarrow> bool \<Rightarrow> path list \<Rightarrow> (path \<rightharpoonup> path) \<Rightarrow> js_error option \<times> chaining" where
  "usageChains d remove unusedVhds children =
     checkUnused d remove unusedVhds children
       \<lparr>vhdChainsToMerge = [], toCheck = unusedVhds, deletions = []\<rparr> unusedVhds"

definition computeChains ::
  "nat \<Rightarrow> bool \<Rightarrow> path list \<Rightarrow> (path \<rightharpoonup> path) \<Rightarrow> path list
     \<Rightarrow> (js_error + chain list) \<times> event list" where
  "computeChains d remove unusedVhds children interrupted =
     (case usageChains d remove unusedVhds children of
        (Some e, c) \<Rightarrow> (Inl e, deletions c)
      | (None, c) \<Rightarrow>
          (Inr (definedChains (forceInterrupted children (vhdChainsToMerge c) interrupted)),
           deletions c))"

section \<open>Backup metadata against the files\<close>

record xref =
  jsons :: "path list"
  unusedVhds :: "path list"
  unusedXvas :: "path list"
  vhdsToJSons :: "path \<rightharpoonup> path"
  xtrace :: "event list"

definition dropIncomplete :: "bool \<Rightarrow> xref \<Rightarrow> path \<Rightarrow> warning \<Rightarrow> xref" where
  "dropIncomplete remove x json wn =
     (if remove
      then x\<lparr>jsons := removeAll json (jsons x), xtrace := xtrace x @ [Warn wn, Unlink json]\<rparr>
      else x\<lparr>xtrace := xtrace x @ [Warn wn]\<rparr>)"

text \<open>The callback of the \<^verbatim>\<open>asyncMap\<close> over \<^verbatim>\<open>jsons\<close>. The paths of a record are taken as
  already resolved against the directory of the VM.\<close>

definition linkMetadata :: "world \<Rightarrow> bool \<Rightarrow> path list \<Rightarrow> path list \<Rightarrow> xref \<Rightarrow> path \<Rightarrow> xref" where
  "linkMetadata w remove vs xvas x json =
     (case readMetadata w json of
        None \<Rightarrow>
          x\<lparr>jsons := removeAll json (jsons x),
            xtrace := xtrace x @ [Warn (FailedToReadMetadata json)]\<rparr>
      | Some (Full linkedXva sz) \<Rightarrow>
          if linkedXva \<in> set xvas
          then x\<lparr>unusedXvas := removeAll linkedXva (unusedXvas x)\<rparr>
          else dropIncomplete remove x json (XvaMissing json linkedXva)
      | Some (Delta linkedVhds sz) \<Rightarrow>
          (let missingVhds = filter (\<lambda>v. v \<notin> set vs) linkedVhds in
           if missingVhds = []
           then x\<lparr>unusedVhds := foldl (\<lambda>u v. removeAll v u) (unusedVhds x) linkedVhds,
                  vhdsToJSons := foldl (\<lambda>m v. m(v \<mapsto> json)) (vhdsToJSons x) linkedVhds\<rparr>
           else dropIncomplete remove x json (VhdsMissing json missingVhds))
      | Some (OtherMode sz) \<Rightarrow> x)"

definition crossReference :: "world \<Rightarrow> bool \<Rightarrow> path list \<Rightarrow> path list \<Rightarrow> path list \<Rightarrow> xref" where
  "crossReference w remove vs xvas js =
     foldl (linkMetadata w remove vs xvas)
       \<lparr>jsons = js, unusedVhds = vs, unusedXvas = xvas, vhdsToJSons = Map.empty, xtrace = []\<rparr>
       js"

section \<open>Merging\<close>

text \<open>\<^verbatim>\<open>mergeVhdChain\<close>: the assertion, then the call of \<^verbatim>\<open>mergeVhd\<close> when \<^verbatim>\<open>merge\<close> is set
  (\<open>None\<close> from the world is a rejected merge). It returns the merged size, or
  \<^verbatim>\<open>undefined\<close> when it does not merge.\<close>

definition mergeVhdChain ::
  "world \<Rightarrow> bool \<Rightarrow> bool \<Rightarrow> chain \<Rightarrow> (js_error + nat option) \<times> event list" where
  "mergeVhdChain w remove merge ch =
     (if \<not> 2 \<le> length ch then (Inl AssertionFailed, [])
      else
        (case ch of
           [] \<Rightarrow> (Inl AssertionFailed, [])
         | parent # children \<Rightarrow>
             if merge
             then (case mergeVhd w parent children of
                     None \<Rightarrow> (Inl MergeFailed, [MergeVhd parent children remove])
                   | Some mergedSize \<Rightarrow>
                       (Inr (Some mergedSize), [MergeVhd parent children remove]))
             else (Inr None, [])))"

text \<open>\<^verbatim>\<open>doMerge\<close>: \<^verbatim>\<open>asyncMap\<close> runs the callback on every chain and rejects with the first
  error after all have settled. The keys of \<^verbatim>\<open>metadataWithMergedVhd\<close> are collected in a
  list; the key is \<^verbatim>\<open>vhdsToJSons[chain[0]]\<close>, which may be \<^verbatim>\<open>undefined\<close>.\<close>

fun doMerge ::
  "world \<Rightarrow> bool \<Rightarrow> bool \<Rightarrow> (path \<rightharpoonup> path) \<Rightarrow> chain list
     \<Rightarrow> js_error option \<times> path option list \<times> event list" where
  "doMerge w remove merge owner [] = (None, [], [])"
| "doMerge w remove merge owner (ch # rest) =
     (case doMerge w remove merge owner rest of
        (err, keys, es) \<Rightarrow>
          (case mergeVhdChain w remove merge ch of
             (Inl e, es1) \<Rightarrow> (Some e, keys, es1 @ es)
           | (Inr None, es1) \<Rightarrow> (err, keys, es1 @ es)
           | (Inr (Some mergedSize), es1) \<Rightarrow>
               (err,
                (case ch of Some first # _ \<Rightarrow> owner first | _ \<Rightarrow> None) # keys,
                es1 @ es)))"

definition deleteUnusedXvas :: "bool \<Rightarrow> path list \<Rightarrow> event list" where
  "deleteUnusedXvas remove xs =
     concat (map (\<lambda>p. Warn (UnusedXva p) # (if remove then [Unlink p] else [])) xs)"

text \<open>\<^verbatim>\<open>path.slice(0, -'.checksum'.length)\<close> drops the last nine characters.\<close>

definition deleteUnusedXvaSums :: "bool \<Rightarrow> path list \<Rightarrow> path list \<Rightarrow> event list" where
  "deleteUnusedXvaSums remove xvas sums =
     concat (map (\<lambda>p. if take (length p - 9) p \<notin> set xvas \<and> remove then [Unlink p] else [])
                 sums)"

section \<open>Sizes in the metadata\<close>

definition shouldComputeVhdsSize :: "vhd_class list \<Rightarrow> bool" where
  "shouldComputeVhdsSize cs = list_all (\<lambda>c. c = VhdFile) cs"

text \<open>\<^verbatim>\<open>computeVhdsSize\<close>: every path is opened (a failure rejects), and the sizes are
  summed only when every disk is a \<^verbatim>\<open>VhdFile\<close>; otherwise the result is \<^verbatim>\<open>undefined\<close>.\<close>

definition computeVhdsSize :: "world \<Rightarrow> path list \<Rightarrow> size_outcome" where
  "computeVhdsSize w vhdPaths =
     (case those (map (openClass w) vhdPaths) of
        None \<Rightarrow> SizeFailed
      | Some cs \<Rightarrow>
          if shouldComputeVhdsSize cs then
            (case those (map (vhdGetSize w) vhdPaths) of
               None \<Rightarrow> SizeFailed
             | Some sizes \<Rightarrow> Computed (sum_list sizes))
          else NotComputed)"

text \<open>The last statement of the callback: the write of the new size.\<close>

definition updateSize ::
  "world \<Rightarrow> bool \<Rightarrow> bool \<Rightarrow> path \<Rightarrow> metadata \<Rightarrow> nat option \<Rightarrow> event list" where
  "updateSize w fixMetadata merged metadataPath md fileSystemSize =
     (if (merged \<or> fixMetadata) \<and> stored_size md \<noteq> fileSystemSize then
        WriteFile metadataPath (set_size md fileSystemSize) #
        (if writeFileFails w metadataPath
         then [Warn (FailedToUpdateBackupSize metadataPath)] else [])
      else [])"

text \<open>The callback on a record that has been read, with \<^verbatim>\<open>merged\<close> already looked up.\<close>

definition checkSize ::
  "world \<Rightarrow> bool \<Rightarrow> bool \<Rightarrow> path \<Rightarrow> metadata \<Rightarrow> event list" where
  "checkSize w fixMetadata merged metadataPath md =
     (case md of
        Full linkedXva sz \<Rightarrow>
          (case getSize w linkedXva of
             None \<Rightarrow> [Warn (FailedToGetBackupSize metadataPath)]
           | Some fileSystemSize \<Rightarrow>
               updateSize w fixMetadata merged metadataPath md (Some fileSystemSize))
      | Delta linkedVhds sz \<Rightarrow>
          (case computeVhdsSize w linkedVhds of
             SizeFailed \<Rightarrow> [Warn (FailedToGetBackupSize metadataPath)]
           | NotComputed \<Rightarrow> []
           | Computed fileSystemSize \<Rightarrow>
               (if \<not> merged \<and> Some fileSystemSize \<noteq> sz
                then [Warn (IncorrectBackupSize metadataPath sz fileSystemSize)] else []) @
               updateSize w fixMetadata merged metadataPath md (Some fileSystemSize))
      | OtherMode sz \<Rightarrow> updateSize w fixMetadata merged metadataPath md None)"

definition reconcileSize ::
  "world \<Rightarrow> bool \<Rightarrow> path option list \<Rightarrow> path \<Rightarrow> js_error option \<times> event list" where
  "reconcileSize w fixMetadata metadataWithMergedVhd metadataPath =
     (case readMetadata w metadataPath of
        None \<Rightarrow> (Some (MetadataUnreadable metadataPath), [])
      | Some md \<Rightarrow>
          (None,
           checkSize w fixMetadata (Some metadataPath \<in> set metadataWithMergedVhd)
             metadataPath md))"

fun reconcileSizes ::
  "world \<Rightarrow> bool \<Rightarrow> path option list \<Rightarrow> path list \<Rightarrow> js_error option \<times> event list" where
  "reconcileSizes w fixMetadata keys [] = (None, [])"
| "reconcileSizes w fixMetadata keys (metadataPath # rest) =
     (case (reconcileSize w fixMetadata keys metadataPath,
            reconcileSizes w fixMetadata keys rest) of
        ((err1, es1), (err2, es2)) \<Rightarrow>
          ((case err1 of Some e \<Rightarrow> Some e | None \<Rightarrow> err2), es1 @ es2))"

section \<open>cleanVm\<close>

text \<open>\<^verbatim>\<open>new Set\<close> filled from a list: the first occurrence of an element gives its place.\<close>

definition newSet :: "path list \<Rightarrow> path list" where
  "newSet xs = rev (remdups (rev xs))"

text \<open>Everything up to and including the computation of \<^verbatim>\<open>toMerge\<close>.\<close>

record plan =
  children_of :: "path \<rightharpoonup> path"
  interrupted :: "(path \<times> path) list"
  active :: "path list"
  xvaFiles :: "path list"
  xvaSums :: "path list"
  links :: xref
  toMerge :: "js_error + chain list"
  before :: "event list"

definition planVm :: "world \<Rightarrow> bool \<Rightarrow> plan" where
  "planVm w remove =
     (let s = removeBrokenVhds w remove (listedInterrupted w) (newSet (listedVhds w));
          (iv, es1) = removeOrphanMergeStates remove (vhds s) (listedInterrupted w);
          es2 = checkAllAliases w remove (listedAliases w);
          (parents, vs, es3) = removeOrphans remove (vhdParents s) (vhds s);
          js = newSet (filter (isMetadataFile w) (listEntries w));
          xvas = newSet (filter (\<lambda>p. \<not> isMetadataFile w p \<and> isXvaFile w p) (listEntries w));
          sums = filter (\<lambda>p. \<not> isMetadataFile w p \<and> \<not> isXvaFile w p \<and> isXvaSumFile w p)
                   (listEntries w);
          es4 = map (\<lambda>p. Warn (XvaMightBeBroken p)) (filter (\<lambda>p. \<not> isValidXva w p) xvas);
          x = crossReference w remove vs xvas js;
          (tm, es5) = computeChains (stackDepth w) remove (unusedVhds x) (vhdChildren s) (map fst iv)
      in \<lparr>children_of = vhdChildren s, interrupted = iv, active = vs, xvaFiles = xvas,
          xvaSums = sums, links = x, toMerge = tm,
          before = trace s @ es1 @ es2 @ es3 @ es4 @ xtrace x @ es5\<rparr>)"

text \<open>\<^verbatim>\<open>cleanVm\<close> returns \<^verbatim>\<open>{ merge: toMerge.length !== 0 }\<close> or rejects; the second
  component is the trace of the whole call.\<close>

definition cleanVm :: "world \<Rightarrow> bool \<Rightarrow> bool \<Rightarrow> bool \<Rightarrow> (js_error + bool) \<times> event list" where
  "cleanVm w fixMetadata remove merge =
     (let p = planVm w remove in
      case toMerge p of
        Inl e \<Rightarrow> (Inl e, before p)
      | Inr chains_to_merge \<Rightarrow>
          (case doMerge w remove merge (vhdsToJSons (links p)) chains_to_merge of
             (err, keys, es6) \<Rightarrow>
               (let during = before p @ es6 @ deleteUnusedXvas remove (unusedXvas (links p)) @
                             deleteUnusedXvaSums remove (xvaFiles p) (xvaSums p)
                in case err of
                     Some e \<Rightarrow> (Inl e, during)
                   | None \<Rightarrow>
                       (case reconcileSizes w fixMetadata keys (jsons (links p)) of
                          (Some e, es7) \<Rightarrow> (Inl e, during @ es7)
                        | (None, es7) \<Rightarrow> (Inr (chains_to_merge \<noteq> []), during @ es7)))))"

section \<open>Reading a trace\<close>

text \<open>The paths deleted by a trace, in order.\<close>

fun unlinked :: "event list \<Rightarrow> path list" where
  "unlinked [] = []"
| "unlinked (Unlink p # es) = p # unlinked es"
| "unlinked (e # es) = unlinked es"


text \<open>A disk is an orphan when its registered parent is not in the active set, or is an
  orphan itself.\<close>

inductive orphan :: "(path \<rightharpoonup> path) \<Rightarrow> path set \<Rightarrow> path \<Rightarrow> bool"
  for P :: "path \<rightharpoonup> path" and V :: "path set" where
  parent_missing: "P p = Some r \<Longrightarrow> r \<notin> V \<Longrightarrow> orphan P V p"
| parent_orphan: "P p = Some r \<Longrightarrow> orphan P V r \<Longrightarrow> orphan P V p"

text \<open>The invariant of \<^verbatim>\<open>vhdChainsToMerge\<close> behind the assertion of \<^verbatim>\<open>mergeVhdChain\<close>.\<close>

definition longChains :: "(path \<times> chain option) list \<Rightarrow> bool" where
  "longChains tbl = (\<forall>k ch. (k, Some ch) \<in> set tbl \<longrightarrow> 2 \<le> length ch)"

text \<open>The calls of a trace that change the backend.\<close>

definition muts :: "event list \<Rightarrow> event list" where "muts es = filter is_mutation es"


definition reported :: "bool \<Rightarrow> event list \<Rightarrow> path \<Rightarrow> bool" where
  "reported remove es v = (Warn (UnusedVhd v) \<in> set es \<and> (remove \<longrightarrow> Unlink v \<in> set es))"




text \<open>The registered parent links as a relation from child to parent.\<close>

definition parentRel :: "(path \<times> path) list \<Rightarrow> (path \<times> path) set" where
  "parentRel ps = {(c, p). map_of ps c = Some p}"

text \<open>The child links that leave an unused disk.\<close>

definition unusedRel :: "path list \<Rightarrow> (path \<rightharpoonup> path) \<Rightarrow> (path \<times> path) set" where
  "unusedRel U C = {(a, b). a \<in> set U \<and> C a = Some b}"




section \<open>Example repositories\<close>

text \<open>A backend with nothing in it and on which every read fails; the examples below
  change the fields they need.\<close>

definition quietWorld :: world where
  "quietWorld =
     \<lparr>listedVhds = [], listedInterrupted = [], listedAliases = [],
      openVhd = (\<lambda>_ _. Inl ERR_OTHER), containsAllDataOf = (\<lambda>_ _. Promise False),
      resolveVhdAlias = (\<lambda>p. p), isVhdFile = (\<lambda>_. True), opensTarget = (\<lambda>_. True),
      unlinkAlias = (\<lambda>_. Unlinked), listDir = (\<lambda>_. []), listEntries = [],
      isMetadataFile = (\<lambda>_. False), isXvaFile = (\<lambda>_. False), isXvaSumFile = (\<lambda>_. False),
      isValidXva = (\<lambda>_. True), readMetadata = (\<lambda>_. None), mergeVhd = (\<lambda>_ _. None),
      getSize = (\<lambda>_. None), openClass = (\<lambda>_. None), vhdGetSize = (\<lambda>_. None),
      writeFileFails = (\<lambda>_. False), stackDepth = 8\<rparr>"

text \<open>Three disks: a base and two differencing disks that both name it as their parent.\<close>

definition forkWorld :: world where
  "forkWorld = quietWorld
     \<lparr>listedVhds := [''/a.vhd'', ''/b.vhd'', ''/c.vhd''],
      openVhd := (\<lambda>_ p. if p = ''/a.vhd''
                          then Inr \<lparr>diskType = DYNAMIC, footer_uuid = Some p, parentName = ''''\<rparr>
                          else Inr \<lparr>diskType = DIFFERENCING, footer_uuid = Some p,
                                    parentName = ''/a.vhd''\<rparr>)\<rparr>"

text \<open>Two disks with the same UUID; the second holds all the data of the first.\<close>

definition twinWorld :: world where
  "twinWorld = quietWorld
     \<lparr>listedVhds := [''/x.vhd'', ''/y.vhd''],
      openVhd := (\<lambda>_ p. Inr \<lparr>diskType = DYNAMIC, footer_uuid = Some ''u'', parentName = ''''\<rparr>),
      containsAllDataOf := (\<lambda>a b. Promise (fst a = ''/y.vhd''))\<rparr>"


text \<open>Four differencing disks whose parent links hold a cycle: \<^verbatim>\<open>/x.vhd\<close> on \<^verbatim>\<open>/z.vhd\<close>,
  \<^verbatim>\<open>/z.vhd\<close> and \<^verbatim>\<open>/w.vhd\<close> on \<^verbatim>\<open>/y.vhd\<close>, \<^verbatim>\<open>/y.vhd\<close> on \<^verbatim>\<open>/x.vhd\<close>.\<close>

definition cycleWorld :: world where
  "cycleWorld = quietWorld
     \<lparr>listedVhds := [''/x.vhd'', ''/w.vhd'', ''/z.vhd'', ''/y.vhd''],
      openVhd := (\<lambda>_ p. Inr \<lparr>diskType = DIFFERENCING, footer_uuid = Some p,
                    parentName = (if p = ''/x.vhd'' then ''/z.vhd''
                                  else if p = ''/y.vhd'' then ''/x.vhd'' else ''/y.vhd'')\<rparr>)\<rparr>"

text \<open>A base disk no backup uses, a differencing disk on it that a delta record uses
  with a wrong size, a differencing disk whose parent is gone, and an archive no record
  uses.\<close>

definition auditWorld :: world where
  "auditWorld = quietWorld
     \<lparr>listedVhds := [''/a.vhd'', ''/b.vhd'', ''/o.vhd''],
      openVhd := (\<lambda>_ p. if p = ''/a.vhd''
                          then Inr \<lparr>diskType = DYNAMIC, footer_uuid = Some p, parentName = ''''\<rparr>
                          else if p = ''/b.vhd''
                          then Inr \<lparr>diskType = DIFFERENCING, footer_uuid = Some p, parentName = ''/a.vhd''\<rparr>
                          else Inr \<lparr>diskType = DIFFERENCING, footer_uuid = Some p, parentName = ''/gone.vhd''\<rparr>),
      listEntries := [''/delta.json'', ''/old.xva''],
      isMetadataFile := (\<lambda>p. p = ''/delta.json''),
      isXvaFile := (\<lambda>p. p = ''/old.xva''),
      readMetadata := (\<lambda>p. if p = ''/delta.json'' then Some (Delta [''/b.vhd''] (Some 1)) else None),
      openClass := (\<lambda>_. Some VhdFile),
      vhdGetSize := (\<lambda>_. Some 5)\<rparr>"

text \<open>A base disk no backup uses under a differencing disk that the delta record
  \<^verbatim>\<open>/delta.json\<close> uses, and a disk of its own that \<^verbatim>\<open>/other.json\<close> uses; both records store
  the size 1, every disk has size 5, and every merge succeeds.\<close>

definition mergeWorld :: world where
  "mergeWorld = quietWorld
     \<lparr>listedVhds := [''/a.vhd'', ''/b.vhd'', ''/p.vhd''],
      openVhd := (\<lambda>_ p. if p = ''/b.vhd''
                          then Inr \<lparr>diskType = DIFFERENCING, footer_uuid = Some p, parentName = ''/a.vhd''\<rparr>
                          else Inr \<lparr>diskType = DYNAMIC, footer_uuid = Some p, parentName = ''''\<rparr>),
      listEntries := [''/delta.json'', ''/other.json''],
      isMetadataFile := (\<lambda>_. True),
      readMetadata := (\<lambda>p. if p = ''/delta.json'' then Some (Delta [''/b.vhd''] (Some 1))
                           else if p = ''/other.json'' then Some (Delta [''/p.vhd''] (Some 1))
                           else None),
      mergeVhd := (\<lambda>_ _. Some 7),
      openClass := (\<lambda>_. Some VhdFile),
      vhdGetSize := (\<lambda>_. Some 5)\<rparr>"

section \<open>Properties of the stages\<close>

subsection \<open>Traces and tables\<close>

lemma unlinked_append: "unlinked (xs @ ys) = unlinked xs @ unlinked ys"
  by (induction xs rule: unlinked.induct) auto

lemma roms_fst: "fst (removeOrphanMergeStates remove vs iv) = filter (\<lambda>e. fst e \<in> set vs) iv"
  by (induction remove vs iv rule: removeOrphanMergeStates.induct)
     (simp_all add: case_prod_beta Let_def)

lemma roms_snd: "unlinked (snd (removeOrphanMergeStates remove vs iv)) =
     (if remove then map snd (filter (\<lambda>e. fst e \<notin> set vs) iv) else [])"
  by (induction remove vs iv rule: removeOrphanMergeStates.induct)
     (auto simp: case_prod_beta Let_def unlinked_append)

lemma set_delete_subset: "set (AList.delete k al) \<subseteq> set al"
  by (auto simp: AList.delete_eq)

lemma set_update_subset: "set (AList.update k v al) \<subseteq> insert (k, v) (set al)"
  by (induction al) auto

lemma definedChains_set: "ch \<in> set (definedChains tbl) \<longleftrightarrow> (\<exists>k. (k, Some ch) \<in> set tbl)"
  by (induction tbl) (auto simp: definedChains_def split: option.splits)

lemma force_map_of:
  "map_of (forceInterrupted C tbl ks) k =
     (if k \<in> set ks then Some (Some [C k, Some k]) else map_of tbl k)"
  by (induction ks arbitrary: tbl) (auto simp: update_conv')

lemma force_distinct:
  "distinct (map fst tbl) \<Longrightarrow> distinct (map fst (forceInterrupted C tbl ks))"
  by (induction ks arbitrary: tbl) (simp_all add: distinct_update)

lemma getUsed_distinct:
  "getUsedChildChainOrDelete d remove U C c v = (r, c') \<Longrightarrow> distinct (map fst (vhdChainsToMerge c)) \<Longrightarrow>
     distinct (map fst (vhdChainsToMerge c'))"
proof (induction d arbitrary: c v r c')
  case 0
  then show ?case by simp
next
  case (Suc d)
  show ?case
  proof (cases "map_of (vhdChainsToMerge c) v = None \<and> v \<in> set U \<and> C v \<noteq> None")
    case False
    with Suc.prems show ?thesis
      by (auto simp: distinct_delete reportUnused_def split: option.splits if_splits)
  next
    case True
    then obtain child where ch: "C v = Some child" by auto
    let ?c1 = "c\<lparr>toCheck := removeAll v (toCheck c)\<rparr>"
    obtain r2 c2 where rec: "getUsedChildChainOrDelete d remove U C ?c1 child = (r2, c2)"
      by (cases "getUsedChildChainOrDelete d remove U C ?c1 child")
    have "distinct (map fst (vhdChainsToMerge c2))"
      using Suc.IH [OF rec] Suc.prems(2) by simp
    then show ?thesis
      using Suc.prems(1) True ch rec
      by (auto simp: Let_def reportUnused_def split: sum.splits option.splits)
  qed
qed

lemma checkUnused_distinct:
  "checkUnused d remove U C c vs = (e, c') \<Longrightarrow> distinct (map fst (vhdChainsToMerge c)) \<Longrightarrow>
     distinct (map fst (vhdChainsToMerge c'))"
proof (induction vs arbitrary: c)
  case Nil
  then show ?case by simp
next
  case (Cons v vs)
  show ?case
  proof (cases "v \<in> set (toCheck c)")
    case False
    with Cons show ?thesis by simp
  next
    case True
    obtain r c1 where g: "getUsedChildChainOrDelete d remove U C c v = (r, c1)"
      by (cases "getUsedChildChainOrDelete d remove U C c v")
    have d1: "distinct (map fst (vhdChainsToMerge c1))"
      using getUsed_distinct [OF g Cons.prems(2)] .
    show ?thesis
    proof (cases r)
      case (Inl x)
      with Cons.prems(1) True g d1 show ?thesis by simp
    next
      case (Inr ch)
      let ?c2 = "c1\<lparr>vhdChainsToMerge := AList.update v ch (vhdChainsToMerge c1)\<rparr>"
      have "checkUnused d remove U C ?c2 vs = (e, c')"
        using Cons.prems(1) True g Inr by simp
      then show ?thesis using Cons.IH d1 by (simp add: distinct_update)
    qed
  qed
qed

lemma truthy_always [simp]: "truthy p"
  by (cases p) simp

text \<open>Whenever the index holds a disk under the UUID of the disk being checked, the first
  branch of the duplicate detection runs.\<close>

lemma duplicate_always_first_branch:
  assumes "footer_uuid (snd v) = Some u" and "vhdById s u = Some dup"
    and "footer_uuid (snd dup) = Some u'"
  shows "dedupVhd w s v =
           (None,
            s\<lparr>vhds := removeAll (fst v) (vhds s),
              vhdById := (vhdById s)(u' \<mapsto> dup),
              trace := trace s @ [Warn (UuidDuplicated u), Warn (ShouldDelete (fst v))]\<rparr>)"
  using assms by (simp add: dedupVhd_def indexVhd_def emit_def)

lemma no_marker: "(map_of iv p = None) = (p \<notin> fst ` set iv)"
  by (simp add: map_of_eq_None_iff)

subsection \<open>Every chain to merge has two elements\<close>

lemma longChains_delete: "longChains tbl \<Longrightarrow> longChains (AList.delete k tbl)"
  using set_delete_subset unfolding longChains_def by fast

lemma longChains_update:
  "longChains tbl \<Longrightarrow> (\<And>ch. v = Some ch \<Longrightarrow> 2 \<le> length ch) \<Longrightarrow> longChains (AList.update k v tbl)"
  using set_update_subset [of k v tbl] unfolding longChains_def by blast

lemma getUsed_long:
  "getUsedChildChainOrDelete d remove U C c v = (Inr r, c') \<Longrightarrow> longChains (vhdChainsToMerge c) \<Longrightarrow>
     longChains (vhdChainsToMerge c') \<and> set (toCheck c') \<subseteq> set (toCheck c) \<and>
     (\<forall>ch. r = Some ch \<longrightarrow> ch \<noteq> [] \<and> (v \<in> set U \<longrightarrow> 2 \<le> length ch))"
proof (induction d arbitrary: c v r c')
  case 0
  then show ?case by simp
next
  case (Suc d)
  show ?case
  proof (cases "map_of (vhdChainsToMerge c) v")
    case (Some ch)
    with Suc.prems have r: "r = ch" and c': "c' = c\<lparr>vhdChainsToMerge := AList.delete v (vhdChainsToMerge c)\<rparr>"
      by auto
    from Some have "(v, ch) \<in> set (vhdChainsToMerge c)" by (rule map_of_SomeD)
    with Suc.prems(2) have "\<And>x. ch = Some x \<Longrightarrow> 2 \<le> length x"
      unfolding longChains_def by blast
    then show ?thesis using Suc.prems(2) r c' by (auto simp: longChains_delete)
  next
    case None
    show ?thesis
    proof (cases "v \<in> set U")
      case False
      with None Suc.prems show ?thesis by auto
    next
      case True
      let ?c1 = "c\<lparr>toCheck := removeAll v (toCheck c)\<rparr>"
      show ?thesis
      proof (cases "C v")
        case N: None
        with None True Suc.prems show ?thesis by (auto simp: reportUnused_def)
      next
        case (Some child)
        obtain r2 c2 where rec: "getUsedChildChainOrDelete d remove U C ?c1 child = (r2, c2)"
          by (cases "getUsedChildChainOrDelete d remove U C ?c1 child")
        with None True Some Suc.prems(1) obtain r2' where r2: "r2 = Inr r2'"
          by (cases r2) (auto simp: Let_def)
        have "longChains (vhdChainsToMerge ?c1)" using Suc.prems(2) by simp
        from Suc.IH [OF rec [unfolded r2] this]
        have ih: "longChains (vhdChainsToMerge c2)" "set (toCheck c2) \<subseteq> set (toCheck ?c1)"
          "\<And>ch. r2' = Some ch \<Longrightarrow> ch \<noteq> []" by auto
        show ?thesis
          using None True Some Suc.prems(1) rec r2 ih
          by (cases r2') (auto simp: Let_def reportUnused_def Suc_le_eq)
      qed
    qed
  qed
qed


lemma checkUnused_long:
  "checkUnused d remove U C c vs = (None, c') \<Longrightarrow> longChains (vhdChainsToMerge c) \<Longrightarrow>
   set (toCheck c) \<subseteq> set U \<Longrightarrow> longChains (vhdChainsToMerge c')"
proof (induction vs arbitrary: c)
  case Nil
  then show ?case by simp
next
  case (Cons v vs)
  show ?case
  proof (cases "v \<in> set (toCheck c)")
    case False
    with Cons show ?thesis by simp
  next
    case True
    obtain r c1 where g: "getUsedChildChainOrDelete d remove U C c v = (r, c1)"
      by (cases "getUsedChildChainOrDelete d remove U C c v")
    with True Cons.prems(1) obtain ch where r: "r = Inr ch"
      by (cases r) auto
    from getUsed_long [OF g [unfolded r] Cons.prems(2)] True Cons.prems(3)
    have l: "longChains (vhdChainsToMerge c1)" "set (toCheck c1) \<subseteq> set U"
      "\<And>x. ch = Some x \<Longrightarrow> 2 \<le> length x" by auto
    let ?c2 = "c1\<lparr>vhdChainsToMerge := AList.update v ch (vhdChainsToMerge c1)\<rparr>"
    have "checkUnused d remove U C ?c2 vs = (None, c')"
      using Cons.prems(1) True g r by simp
    moreover have "longChains (vhdChainsToMerge ?c2)"
      using l(1,3) by (simp add: longChains_update)
    ultimately show ?thesis using Cons.IH l(2) by simp
  qed
qed

lemma forceInterrupted_long:
  "longChains tbl \<Longrightarrow> longChains (forceInterrupted C tbl ks)"
proof (induction ks arbitrary: tbl)
  case Nil
  then show ?case by simp
next
  case (Cons a ks)
  have "longChains (AList.update a (Some [C a, Some a]) tbl)"
    using Cons.prems by (rule longChains_update) auto
  then show ?case using Cons.IH by simp
qed

lemma computeChains_long:
  assumes "computeChains d remove U C ks = (Inr tm, es)" and "ch \<in> set tm"
  shows "2 \<le> length ch"
proof -
  obtain e c where u: "usageChains d remove U C = (e, c)" by (cases "usageChains d remove U C")
  with assms(1) have e: "e = None"
    and tm: "tm = definedChains (forceInterrupted C (vhdChainsToMerge c) ks)"
    by (auto simp: computeChains_def split: option.splits)
  have "longChains (vhdChainsToMerge c)"
    using u [unfolded usageChains_def e]
    by (rule checkUnused_long) (simp_all add: longChains_def)
  then have "longChains (forceInterrupted C (vhdChainsToMerge c) ks)"
    by (rule forceInterrupted_long)
  with assms(2) tm show ?thesis by (auto simp: definedChains_set longChains_def)
qed

subsection \<open>Nothing is changed when nothing is asked for\<close>

lemma muts_simps [simp]: "muts [] = []" "muts (xs @ ys) = muts xs @ muts ys"
  "muts (Warn x # es) = muts es"
  by (simp_all add: muts_def)

lemma checkVhd_quiet: "muts (trace (checkVhd w False iv s p)) = muts (trace s)"
  by (auto simp: checkVhd_def afterOpen_def useVhd_def dedupVhd_def indexVhd_def vhdCheckFailed_def emit_def
      Let_def split: sum.splits option.splits prod.splits)

lemma foldl_checkVhd_quiet:
  "muts (trace (foldl (checkVhd w False iv) s ps)) = muts (trace s)"
  by (induction ps arbitrary: s) (simp_all add: checkVhd_quiet)

lemma removeBrokenVhds_quiet: "muts (trace (removeBrokenVhds w False iv ps)) = []"
  by (simp add: removeBrokenVhds_def foldl_checkVhd_quiet)

lemma roms_quiet: "muts (snd (removeOrphanMergeStates False vs iv)) = []"
  by (induction iv) (auto simp: case_prod_beta Let_def)

lemma checkAliasLoop_quiet: "muts (snd (checkAliasLoop w False as)) = []"
  by (induction as) (auto simp: case_prod_beta Let_def)

lemma concat_quiet: "(\<And>x. x \<in> set xs \<Longrightarrow> muts (f x) = []) \<Longrightarrow> muts (concat (map f xs)) = []"
  by (induction xs) auto

lemma checkAliases_quiet: "muts (checkAliases w False as d) = []"
  by (auto simp: checkAliases_def case_prod_beta checkAliasLoop_quiet intro!: concat_quiet)

lemma checkAllAliases_quiet: "muts (checkAllAliases w False al) = []"
  by (auto simp: checkAllAliases_def checkAliases_quiet intro!: concat_quiet)

lemma deleteIfOrphan_quiet:
  "muts (snd (snd (deleteIfOrphan False (ps, vs, es) p))) = muts es"
proof (induction False "(ps, vs, es)" p arbitrary: ps vs es rule: deleteIfOrphan.induct)
  case (1 parents vs es vhdPath)
  show ?case
  proof (cases "map_of parents vhdPath")
    case None
    then show ?thesis by simp
  next
    case (Some parent)
    obtain p1 v1 e1 where r: "deleteIfOrphan False (AList.delete vhdPath parents, vs, es) parent = (p1, v1, e1)"
      by (cases "deleteIfOrphan False (AList.delete vhdPath parents, vs, es) parent") auto
    from 1 [OF Some] r have "muts e1 = muts es" by simp
    with Some r show ?thesis by simp
  qed
qed

lemma removeOrphans_quiet: "muts (snd (snd (removeOrphans False ps vs))) = []"
proof -
  have "muts (snd (snd (foldl (deleteIfOrphan False) st ks))) = muts (snd (snd st))" for st ks
    by (induction ks arbitrary: st) (auto simp: deleteIfOrphan_quiet simp del: deleteIfOrphan.simps)
  then show ?thesis by (simp add: removeOrphans_def)
qed

lemma linkMetadata_quiet: "muts (xtrace (linkMetadata w False vs xvas x j)) = muts (xtrace x)"
  by (auto simp: linkMetadata_def dropIncomplete_def Let_def split: option.splits metadata.splits)

lemma crossReference_quiet: "muts (xtrace (crossReference w False vs xvas js)) = []"
proof -
  have "muts (xtrace (foldl (linkMetadata w False vs xvas) x js)) = muts (xtrace x)" for x
    by (induction js arbitrary: x) (simp_all add: linkMetadata_quiet)
  then show ?thesis by (simp add: crossReference_def)
qed

lemma getUsed_quiet:
  "getUsedChildChainOrDelete d False U C c v = (r, c') \<Longrightarrow> muts (deletions c') = muts (deletions c)"
proof (induction d arbitrary: c v r c')
  case 0
  then show ?case by simp
next
  case (Suc d)
  show ?case
  proof (cases "map_of (vhdChainsToMerge c) v = None \<and> v \<in> set U \<and> C v \<noteq> None")
    case False
    with Suc.prems show ?thesis
      by (auto simp: reportUnused_def split: option.splits if_splits)
  next
    case True
    then obtain child where ch: "C v = Some child" by auto
    let ?c1 = "c\<lparr>toCheck := removeAll v (toCheck c)\<rparr>"
    obtain r2 c2 where rec: "getUsedChildChainOrDelete d False U C ?c1 child = (r2, c2)"
      by (cases "getUsedChildChainOrDelete d False U C ?c1 child")
    have "muts (deletions c2) = muts (deletions c)"
      using Suc.IH [OF rec] by simp
    then show ?thesis
      using Suc.prems True ch rec
      by (auto simp: Let_def reportUnused_def split: sum.splits option.splits)
  qed
qed

lemma checkUnused_quiet:
  "muts (deletions (snd (checkUnused d False U C c vs))) = muts (deletions c)"
proof (induction vs arbitrary: c)
  case Nil
  then show ?case by simp
next
  case (Cons v vs)
  obtain r c1 where g: "getUsedChildChainOrDelete d False U C c v = (r, c1)"
    by (cases "getUsedChildChainOrDelete d False U C c v")
  from getUsed_quiet [OF g] g show ?case
    by (auto simp: Cons split: sum.splits)
qed

lemma computeChains_quiet: "muts (snd (computeChains d False U C ks)) = []"
  using checkUnused_quiet [of d U C "\<lparr>vhdChainsToMerge = [], toCheck = U, deletions = []\<rparr>" U]
  by (auto simp: computeChains_def usageChains_def split: prod.splits option.splits)

lemma doMerge_off:
  "\<forall>ch \<in> set tm. 2 \<le> length ch \<Longrightarrow> doMerge w remove False owner tm = (None, [], [])"
  by (induction tm) (auto simp: mergeVhdChain_def split: list.splits)

lemma xvas_quiet: "muts (deleteUnusedXvas False xs) = []"
  by (induction xs) (simp_all add: deleteUnusedXvas_def)

lemma xvaSums_quiet: "muts (deleteUnusedXvaSums False xvas sums) = []"
  by (induction sums) (simp_all add: deleteUnusedXvaSums_def)

lemma checkSize_quiet: "muts (checkSize w False False p md) = []"
  by (auto simp: checkSize_def updateSize_def split: metadata.splits option.splits size_outcome.splits)

lemma reconcileSizes_off:
  "\<forall>j \<in> set js. readMetadata w j \<noteq> None \<Longrightarrow>
     fst (reconcileSizes w False [] js) = None \<and> muts (snd (reconcileSizes w False [] js)) = []"
  by (induction js) (auto simp: reconcileSize_def checkSize_quiet split: prod.splits option.splits)

lemma linkMetadata_jsons:
  "set (jsons (linkMetadata w remove vs xvas x j)) \<subseteq> set (jsons x) \<and>
   (readMetadata w j = None \<longrightarrow> j \<notin> set (jsons (linkMetadata w remove vs xvas x j)))"
  by (auto simp: linkMetadata_def dropIncomplete_def Let_def split: option.splits metadata.splits)

lemma foldl_link_jsons:
  "set (jsons (foldl (linkMetadata w remove vs xvas) x js)) \<subseteq> set (jsons x) \<and>
   (\<forall>j \<in> set js. readMetadata w j = None \<longrightarrow>
       j \<notin> set (jsons (foldl (linkMetadata w remove vs xvas) x js)))"
proof (induction js arbitrary: x)
  case Nil
  then show ?case by simp
next
  case (Cons a js)
  from Cons [of "linkMetadata w remove vs xvas x a"] linkMetadata_jsons [of w remove vs xvas x a]
  show ?case by auto
qed

lemma crossReference_readable:
  "j \<in> set (jsons (crossReference w remove vs xvas js)) \<Longrightarrow> readMetadata w j \<noteq> None"
  using foldl_link_jsons [of w remove vs xvas
      "\<lparr>jsons = js, unusedVhds = vs, unusedXvas = xvas, vhdsToJSons = Map.empty, xtrace = []\<rparr>" js]
  by (auto simp: crossReference_def)


lemma computeChains_long_fst:
  assumes "fst (computeChains d remove U C ks) = Inr tm" and "ch \<in> set tm"
  shows "2 \<le> length ch"
proof -
  have "computeChains d remove U C ks = (Inr tm, snd (computeChains d remove U C ks))"
    using assms(1) by (simp add: prod_eq_iff)
  then show ?thesis using assms(2) by (rule computeChains_long)
qed

subsection \<open>The walk over the unused disks\<close>















lemma reported_mono: "reported remove es x \<Longrightarrow> set es \<subseteq> set es' \<Longrightarrow> reported remove es' x"
  by (auto simp: reported_def)





subsection \<open>Pruning orphans\<close>

lemma orphan_dom: "orphan P V q \<Longrightarrow> P q \<noteq> None"
  by (induction rule: orphan.induct) auto

lemma orphan_iff: "P p = Some r \<Longrightarrow> orphan P V p \<longleftrightarrow> r \<notin> V \<or> orphan P V r"
  by (auto elim: orphan.cases intro: orphan.intros)

lemma unlinked_snoc [simp]: "unlinked (es @ [Unlink p]) = unlinked es @ [p]"
  "unlinked (es @ [Warn x]) = unlinked es" "unlinked (es @ [Warn x, Unlink p]) = unlinked es @ [p]"
  by (simp_all add: unlinked_append)

lemma delete_SomeD: "map_of (AList.delete k al) x = Some r \<Longrightarrow> map_of al x = Some r \<and> x \<noteq> k"
  by (auto simp: delete_conv' split: if_splits)

lemma deleteIfOrphan_sound:
  assumes "deleteIfOrphan remove (ps, vs, es) p = (ps', vs', es')"
    and "\<forall>k r. map_of ps k = Some r \<longrightarrow> map_of P0 k = Some r"
    and "set vs \<subseteq> set V0" and "\<forall>q \<in> set V0. \<not> orphan (map_of P0) (set V0) q \<longrightarrow> q \<in> set vs"
    and "\<forall>q \<in> set (unlinked es). orphan (map_of P0) (set V0) q"
  shows "(\<forall>k r. map_of ps' k = Some r \<longrightarrow> map_of ps k = Some r) \<and> set vs' \<subseteq> set V0 \<and>
         (\<forall>q \<in> set V0. \<not> orphan (map_of P0) (set V0) q \<longrightarrow> q \<in> set vs') \<and>
         (\<forall>q \<in> set (unlinked es'). orphan (map_of P0) (set V0) q) \<and>
         (\<not> remove \<longrightarrow> unlinked es' = unlinked es)"
  using assms
proof (induction remove "(ps, vs, es)" p arbitrary: ps vs es ps' vs' es' rule: deleteIfOrphan.induct)
  case (1 remove parents vs es vhdPath)
  show ?case
  proof (cases "map_of parents vhdPath")
    case None
    with 1 show ?thesis by simp
  next
    case (Some parent)
    obtain p1 v1 e1 where r: "deleteIfOrphan remove (AList.delete vhdPath parents, vs, es) parent = (p1, v1, e1)"
      by (cases "deleteIfOrphan remove (AList.delete vhdPath parents, vs, es) parent") auto
    have sub1: "\<forall>k r. map_of (AList.delete vhdPath parents) k = Some r \<longrightarrow> map_of P0 k = Some r"
      using "1.prems"(2) delete_SomeD by fast
    from "1.hyps" [OF Some r sub1 "1.prems"(3,4,5)]
    have ih: "\<forall>k r. map_of p1 k = Some r \<longrightarrow> map_of (AList.delete vhdPath parents) k = Some r"
      "set v1 \<subseteq> set V0" "\<forall>q \<in> set V0. \<not> orphan (map_of P0) (set V0) q \<longrightarrow> q \<in> set v1"
      "\<forall>q \<in> set (unlinked e1). orphan (map_of P0) (set V0) q"
      "\<not> remove \<longrightarrow> unlinked e1 = unlinked es" by auto
    have P0: "map_of P0 vhdPath = Some parent" using "1.prems"(2) Some by simp
    have sub': "\<forall>k r. map_of p1 k = Some r \<longrightarrow> map_of parents k = Some r"
      using ih(1) delete_SomeD by fast
    show ?thesis
    proof (cases "parent \<in> set v1")
      case True
      with "1.prems"(1) Some r have "ps' = p1" "vs' = v1" "es' = e1" by auto
      with ih sub' show ?thesis by simp
    next
      case False
      with "1.prems"(1) Some r have res: "ps' = p1" "vs' = removeAll vhdPath v1"
        "es' = e1 @ Warn (ParentVhdMissing parent vhdPath) # (if remove then [Unlink vhdPath] else [])"
        by auto
      have "orphan (map_of P0) (set V0) vhdPath"
        using False ih(3) orphan_iff [of "map_of P0" vhdPath parent "set V0"] P0 by blast
      with ih sub' show ?thesis unfolding res by (auto simp: unlinked_append)
    qed
  qed
qed

lemma dom_delete_map: "dom (map_of (AList.delete k al)) = dom (map_of al) - {k}"
  by (auto simp: delete_conv' split: if_splits)

lemma deleteIfOrphan_exact:
  assumes "deleteIfOrphan remove (ps, vs, es) p = (ps', vs', es')"
    and "acyclic (parentRel P0)"
    and "\<forall>k r. map_of ps k = Some r \<longrightarrow> map_of P0 k = Some r"
    and "vs = filter (\<lambda>q. q \<in> dom (map_of ps) \<or> q \<in> S \<or> \<not> orphan (map_of P0) (set V0) q) V0"
    and "\<forall>q \<in> S. (q, p) \<in> (parentRel P0)\<^sup>+"
  shows "vs' = filter (\<lambda>q. q \<in> dom (map_of ps') \<or> q \<in> S \<or> \<not> orphan (map_of P0) (set V0) q) V0 \<and>
         dom (map_of ps') \<subseteq> dom (map_of ps) - {p} \<and>
         (\<forall>k r. map_of ps' k = Some r \<longrightarrow> map_of ps k = Some r) \<and>
         set (unlinked es') = set (unlinked es) \<union>
           {q. remove \<and> q \<in> dom (map_of ps) \<and> q \<notin> dom (map_of ps') \<and> orphan (map_of P0) (set V0) q}"
  using assms
proof (induction remove "(ps, vs, es)" p arbitrary: ps vs es ps' vs' es' S rule: deleteIfOrphan.induct)
  case (1 remove parents vs es vhdPath)
  let ?orph = "orphan (map_of P0) (set V0)"
  show ?case
  proof (cases "map_of parents vhdPath")
    case None
    with "1.prems"(1) have "ps' = parents" "vs' = vs" "es' = es" by auto
    with None "1.prems"(4) show ?thesis by auto
  next
    case (Some parent)
    let ?ps1 = "AList.delete vhdPath parents"
    obtain p1 v1 e1 where r: "deleteIfOrphan remove (?ps1, vs, es) parent = (p1, v1, e1)"
      by (cases "deleteIfOrphan remove (?ps1, vs, es) parent") auto
    have P0: "map_of P0 vhdPath = Some parent" using "1.prems"(3) Some by simp
    then have edge: "(vhdPath, parent) \<in> parentRel P0" by (simp add: parentRel_def)
    have sub1: "\<forall>k r. map_of ?ps1 k = Some r \<longrightarrow> map_of P0 k = Some r"
      using "1.prems"(3) delete_SomeD by fast
    have dom1: "dom (map_of parents) = insert vhdPath (dom (map_of ?ps1))"
      using Some by (auto simp: dom_delete_map)
    have inv1: "vs = filter (\<lambda>q. q \<in> dom (map_of ?ps1) \<or> q \<in> insert vhdPath S \<or> \<not> ?orph q) V0"
      unfolding "1.prems"(4) dom1 by (rule filter_cong) auto
    have desc1: "\<forall>q \<in> insert vhdPath S. (q, parent) \<in> (parentRel P0)\<^sup>+"
      using "1.prems"(5) edge by (auto intro: trancl_into_trancl)
    from "1.hyps" [OF Some r "1.prems"(2) sub1 inv1 desc1]
    have ih: "v1 = filter (\<lambda>q. q \<in> dom (map_of p1) \<or> q \<in> insert vhdPath S \<or> \<not> ?orph q) V0"
      "dom (map_of p1) \<subseteq> dom (map_of ?ps1) - {parent}"
      "\<forall>k r. map_of p1 k = Some r \<longrightarrow> map_of ?ps1 k = Some r"
      "set (unlinked e1) = set (unlinked es) \<union>
         {q. remove \<and> q \<in> dom (map_of ?ps1) \<and> q \<notin> dom (map_of p1) \<and> ?orph q}"
      by auto
    have notS: "parent \<notin> insert vhdPath S"
    proof
      assume "parent \<in> insert vhdPath S"
      with desc1 have "(parent, parent) \<in> (parentRel P0)\<^sup>+" by blast
      with "1.prems"(2) show False by (simp add: acyclic_def)
    qed
    have selfS: "vhdPath \<notin> S"
    proof
      assume "vhdPath \<in> S"
      with "1.prems"(5) have "(vhdPath, vhdPath) \<in> (parentRel P0)\<^sup>+" by blast
      with "1.prems"(2) show False by (simp add: acyclic_def)
    qed
    have p1dom: "vhdPath \<notin> dom (map_of p1)" "parent \<notin> dom (map_of p1)"
      using ih(2) by (auto simp: dom_delete_map)
    have mem: "parent \<in> set v1 \<longleftrightarrow> parent \<in> set V0 \<and> \<not> ?orph parent"
      unfolding ih(1) using notS p1dom(2) by auto
    have orph: "?orph vhdPath \<longleftrightarrow> parent \<notin> set v1"
      using orphan_iff [of "map_of P0" vhdPath parent "set V0"] P0 mem by blast
    have sub': "\<forall>k r. map_of p1 k = Some r \<longrightarrow> map_of parents k = Some r"
      using ih(3) delete_SomeD by fast
    have dom': "dom (map_of p1) \<subseteq> dom (map_of parents) - {vhdPath}"
      using ih(2) by (auto simp: dom_delete_map)
    show ?thesis
    proof (cases "parent \<in> set v1")
      case True
      with "1.prems"(1) Some r have res: "ps' = p1" "vs' = v1" "es' = e1" by auto
      have "v1 = filter (\<lambda>q. q \<in> dom (map_of p1) \<or> q \<in> S \<or> \<not> ?orph q) V0"
        unfolding ih(1) using True orph by (intro filter_cong) auto
      moreover have "set (unlinked e1) = set (unlinked es) \<union>
          {q. remove \<and> q \<in> dom (map_of parents) \<and> q \<notin> dom (map_of p1) \<and> ?orph q}"
        unfolding ih(4) dom1 using True orph by auto
      ultimately show ?thesis unfolding res using dom' sub' by simp
    next
      case False
      with "1.prems"(1) Some r have res: "ps' = p1" "vs' = removeAll vhdPath v1"
        "es' = e1 @ Warn (ParentVhdMissing parent vhdPath) # (if remove then [Unlink vhdPath] else [])"
        by auto
      have "removeAll vhdPath v1 = filter (\<lambda>q. q \<in> dom (map_of p1) \<or> q \<in> S \<or> \<not> ?orph q) V0"
        unfolding ih(1) removeAll_filter_not_eq filter_filter
        using False orph p1dom(1) selfS by (intro filter_cong) auto
      moreover have "set (unlinked es') = set (unlinked es) \<union>
          {q. remove \<and> q \<in> dom (map_of parents) \<and> q \<notin> dom (map_of p1) \<and> ?orph q}"
        unfolding res(3) using ih(4) False orph p1dom(1) by (auto simp: unlinked_append dom1)
      ultimately show ?thesis unfolding res(1,2) using dom' sub' by simp
    qed
  qed
qed

lemma foldl_deleteIfOrphan_sound:
  assumes "foldl (deleteIfOrphan remove) (ps, vs, es) ks = (ps', vs', es')"
    and "\<forall>k r. map_of ps k = Some r \<longrightarrow> map_of P0 k = Some r"
    and "set vs \<subseteq> set V0" and "\<forall>q \<in> set V0. \<not> orphan (map_of P0) (set V0) q \<longrightarrow> q \<in> set vs"
    and "\<forall>q \<in> set (unlinked es). orphan (map_of P0) (set V0) q"
  shows "set vs' \<subseteq> set V0 \<and>
         (\<forall>q \<in> set V0. \<not> orphan (map_of P0) (set V0) q \<longrightarrow> q \<in> set vs') \<and>
         (\<forall>q \<in> set (unlinked es'). orphan (map_of P0) (set V0) q) \<and>
         (\<not> remove \<longrightarrow> unlinked es' = unlinked es)"
  using assms
proof (induction ks arbitrary: ps vs es)
  case Nil
  then show ?case by simp
next
  case (Cons k ks)
  obtain p1 v1 e1 where s: "deleteIfOrphan remove (ps, vs, es) k = (p1, v1, e1)"
    by (cases "deleteIfOrphan remove (ps, vs, es) k") auto
  from deleteIfOrphan_sound [OF s Cons.prems(2-5)]
  have st: "\<forall>k r. map_of p1 k = Some r \<longrightarrow> map_of ps k = Some r" "set v1 \<subseteq> set V0"
    "\<forall>q \<in> set V0. \<not> orphan (map_of P0) (set V0) q \<longrightarrow> q \<in> set v1"
    "\<forall>q \<in> set (unlinked e1). orphan (map_of P0) (set V0) q"
    "\<not> remove \<longrightarrow> unlinked e1 = unlinked es" by auto
  have sub: "\<forall>k r. map_of p1 k = Some r \<longrightarrow> map_of P0 k = Some r"
    using st(1) Cons.prems(2) by blast
  have "foldl (deleteIfOrphan remove) (p1, v1, e1) ks = (ps', vs', es')"
    using Cons.prems(1) s by simp
  from Cons.IH [OF this sub st(2,3,4)] st(5) show ?case by auto
qed

lemma foldl_deleteIfOrphan_exact:
  assumes "foldl (deleteIfOrphan remove) (ps, vs, es) ks = (ps', vs', es')"
    and "acyclic (parentRel P0)"
    and "\<forall>k r. map_of ps k = Some r \<longrightarrow> map_of P0 k = Some r"
    and "vs = filter (\<lambda>q. q \<in> dom (map_of ps) \<or> \<not> orphan (map_of P0) (set V0) q) V0"
  shows "vs' = filter (\<lambda>q. q \<in> dom (map_of ps') \<or> \<not> orphan (map_of P0) (set V0) q) V0 \<and>
         dom (map_of ps') \<subseteq> dom (map_of ps) - set ks \<and>
         set (unlinked es') = set (unlinked es) \<union>
           {q. remove \<and> q \<in> dom (map_of ps) \<and> q \<notin> dom (map_of ps') \<and> orphan (map_of P0) (set V0) q}"
  using assms
proof (induction ks arbitrary: ps vs es)
  case Nil
  then show ?case by auto
next
  case (Cons k ks)
  obtain p1 v1 e1 where s: "deleteIfOrphan remove (ps, vs, es) k = (p1, v1, e1)"
    by (cases "deleteIfOrphan remove (ps, vs, es) k") auto
  have inv: "vs = filter (\<lambda>q. q \<in> dom (map_of ps) \<or> q \<in> {} \<or> \<not> orphan (map_of P0) (set V0) q) V0"
    using Cons.prems(4) by simp
  from deleteIfOrphan_exact [OF s Cons.prems(2,3) inv]
  have st: "v1 = filter (\<lambda>q. q \<in> dom (map_of p1) \<or> \<not> orphan (map_of P0) (set V0) q) V0"
    "dom (map_of p1) \<subseteq> dom (map_of ps) - {k}"
    "\<forall>k r. map_of p1 k = Some r \<longrightarrow> map_of ps k = Some r"
    "set (unlinked e1) = set (unlinked es) \<union>
       {q. remove \<and> q \<in> dom (map_of ps) \<and> q \<notin> dom (map_of p1) \<and> orphan (map_of P0) (set V0) q}"
    by auto
  have sub: "\<forall>k r. map_of p1 k = Some r \<longrightarrow> map_of P0 k = Some r"
    using st(3) Cons.prems(3) by blast
  have "foldl (deleteIfOrphan remove) (p1, v1, e1) ks = (ps', vs', es')"
    using Cons.prems(1) s by simp
  from Cons.IH [OF this Cons.prems(2) sub st(1)]
  have ih: "vs' = filter (\<lambda>q. q \<in> dom (map_of ps') \<or> \<not> orphan (map_of P0) (set V0) q) V0"
    "dom (map_of ps') \<subseteq> dom (map_of p1) - set ks"
    "set (unlinked es') = set (unlinked e1) \<union>
       {q. remove \<and> q \<in> dom (map_of p1) \<and> q \<notin> dom (map_of ps') \<and> orphan (map_of P0) (set V0) q}"
    by auto
  have d: "dom (map_of ps') \<subseteq> dom (map_of ps) - set (k # ks)"
    using ih(2) st(2) by auto
  have u: "set (unlinked es') = set (unlinked es) \<union>
           {q. remove \<and> q \<in> dom (map_of ps) \<and> q \<notin> dom (map_of ps') \<and> orphan (map_of P0) (set V0) q}"
  proof -
    have "dom (map_of ps') \<subseteq> dom (map_of p1)" "dom (map_of p1) \<subseteq> dom (map_of ps)"
      using ih(2) st(2) by auto
    then have "{q. remove \<and> q \<in> dom (map_of ps) \<and> q \<notin> dom (map_of ps') \<and> orphan (map_of P0) (set V0) q} =
      {q. remove \<and> q \<in> dom (map_of ps) \<and> q \<notin> dom (map_of p1) \<and> orphan (map_of P0) (set V0) q} \<union>
      {q. remove \<and> q \<in> dom (map_of p1) \<and> q \<notin> dom (map_of ps') \<and> orphan (map_of P0) (set V0) q}"
      by (intro set_eqI) (simp, meson subsetD)
    then show ?thesis unfolding ih(3) st(4) by (simp add: Un_assoc)
  qed
  show ?case using ih(1) d u by simp
qed

lemma chain_of_three_acyclic: "acyclic (parentRel [(''/b.vhd'', ''/a.vhd''), (''/c.vhd'', ''/b.vhd'')])"
proof -
  let ?f = "\<lambda>p. if p = ''/a.vhd'' then 2 else if p = ''/b.vhd'' then 1 else (0::nat)"
  have "parentRel [(''/b.vhd'', ''/a.vhd''), (''/c.vhd'', ''/b.vhd'')] \<subseteq> measure ?f"
    by (auto simp: parentRel_def split: if_splits)
  then show ?thesis by (rule acyclic_subset [OF wf_acyclic [OF wf_measure]])
qed

subsection \<open>The walk over the unused disks returns\<close>

lemma getUsed_returns:
  assumes "acyclic (unusedRel U C)"
    and "card {u \<in> set U. (v, u) \<in> (unusedRel U C)\<^sup>*} < d"
  shows "\<exists>r c'. getUsedChildChainOrDelete d remove U C c v = (Inr r, c')"
  using assms(2)
proof (induction d arbitrary: c v)
  case 0
  then show ?case by simp
next
  case (Suc d)
  let ?R = "unusedRel U C"
  let ?reach = "\<lambda>v. {u \<in> set U. (v, u) \<in> ?R\<^sup>*}"
  show ?case
  proof (cases "map_of (vhdChainsToMerge c) v = None \<and> v \<in> set U \<and> C v \<noteq> None")
    case False
    then show ?thesis by (auto split: option.splits)
  next
    case True
    then obtain child where ch: "C v = Some child" by auto
    with True have edge: "(v, child) \<in> ?R" by (simp add: unusedRel_def)
    have "?reach child \<subseteq> ?reach v"
      using edge by (auto intro: converse_rtrancl_into_rtrancl)
    moreover have "v \<notin> ?reach child"
    proof
      assume "v \<in> ?reach child"
      then have "(child, v) \<in> ?R\<^sup>*" by simp
      with edge have "(v, v) \<in> ?R\<^sup>+" by (rule rtrancl_into_trancl2)
      with assms(1) show False by (simp add: acyclic_def)
    qed
    moreover have "v \<in> ?reach v" using True by simp
    ultimately have "?reach child \<subset> ?reach v" by blast
    moreover have "finite (?reach v)" by simp
    ultimately have "card (?reach child) < card (?reach v)" by (rule psubset_card_mono [rotated])
    with Suc.prems have "card (?reach child) < d" by simp
    from Suc.IH [OF this, of "c\<lparr>toCheck := removeAll v (toCheck c)\<rparr>"]
    obtain r2 c2 where
      "getUsedChildChainOrDelete d remove U C (c\<lparr>toCheck := removeAll v (toCheck c)\<rparr>) child = (Inr r2, c2)"
      by blast
    with True ch show ?thesis by (cases r2) (simp_all add: Let_def)
  qed
qed

lemma checkUnused_returns:
  assumes "acyclic (unusedRel U C)" and "length U < d"
  shows "fst (checkUnused d remove U C c vs) = None"
proof (induction vs arbitrary: c)
  case Nil
  then show ?case by simp
next
  case (Cons v vs)
  have "card {u \<in> set U. (v, u) \<in> (unusedRel U C)\<^sup>*} \<le> card (set U)"
    by (rule card_mono) auto
  also have "\<dots> \<le> length U" by (rule card_length)
  finally have "card {u \<in> set U. (v, u) \<in> (unusedRel U C)\<^sup>*} < d" using assms(2) by simp
  from getUsed_returns [OF assms(1) this, of remove c]
  obtain r c1 where "getUsedChildChainOrDelete d remove U C c v = (Inr r, c1)" by blast
  then show ?case using Cons by simp
qed

text \<open>The walk returns when the child links of the unused disks hold no cycle and the
  stack has room for one call per unused disk.\<close>

lemma walk_returns:
  "acyclic (unusedRel U C) \<Longrightarrow> length U < d \<Longrightarrow> fst (usageChains d remove U C) = None"
  by (simp add: usageChains_def checkUnused_returns)

subsection \<open>Unused disks kept in a chain, unused disks deleted\<close>
















subsection \<open>The records marked as merged\<close>








lemma merged_record_not_marked:
  "cleanVm mergeWorld False False True =
     (Inr True,
      [MergeVhd (Some ''/a.vhd'') [Some ''/b.vhd''] False,
       Warn (IncorrectBackupSize ''/delta.json'' (Some 1) 5),
       Warn (IncorrectBackupSize ''/other.json'' (Some 1) 5)])"
  by (simp add: cleanVm_def planVm_def newSet_def removeBrokenVhds_def checkVhd_def afterOpen_def useVhd_def
        dedupVhd_def indexVhd_def vhdCheckFailed_def emit_def removeOrphans_def checkAllAliases_def
        crossReference_def linkMetadata_def computeChains_def usageChains_def definedChains_def
        mergeVhdChain_def deleteUnusedXvas_def deleteUnusedXvaSums_def reconcileSize_def
        checkSize_def updateSize_def computeVhdsSize_def shouldComputeVhdsSize_def
        mergeWorld_def quietWorld_def Let_def eval_nat_numeral)

section \<open>The claims\<close>

text \<open>C1: with \<^verbatim>\<open>remove\<close>, \<^verbatim>\<open>merge\<close> and \<^verbatim>\<open>fixMetadata\<close> all off, the trace of \<^verbatim>\<open>cleanVm\<close> holds
  no \<^verbatim>\<open>unlink\<close>, no \<^verbatim>\<open>writeFile\<close> and no call of \<^verbatim>\<open>mergeVhd\<close> (the only place a rename
  could come from), from any stage, \<^verbatim>\<open>checkAliases\<close> included; and \<^verbatim>\<open>cleanVm\<close> returns
  whenever the computation of the chains does, with \<^verbatim>\<open>merge\<close> true exactly when
  \<^verbatim>\<open>toMerge\<close> is not empty.\<close>

theorem audit_run_is_read_only:
  "filter is_mutation (snd (cleanVm w False False False)) = [] \<and>
   fst (cleanVm w False False False) =
     (case toMerge (planVm w False) of Inl e \<Rightarrow> Inl e | Inr tm \<Rightarrow> Inr (tm \<noteq> []))"
proof -
  let ?p = "planVm w False"
  have "muts (snd (cleanVm w False False False)) = [] \<and>
   fst (cleanVm w False False False) =
     (case toMerge (planVm w False) of Inl e \<Rightarrow> Inl e | Inr tm \<Rightarrow> Inr (tm \<noteq> []))"
  proof -
  have before: "muts (before ?p) = []"
    by (simp add: planVm_def Let_def case_prod_beta removeBrokenVhds_quiet roms_quiet
        checkAllAliases_quiet removeOrphans_quiet crossReference_quiet computeChains_quiet
        muts_def [of "map _ _"] comp_def)
  show ?thesis
  proof (cases "toMerge ?p")
    case (Inl e)
    with before show ?thesis by (simp add: cleanVm_def Let_def)
  next
    case (Inr tm)
    have "\<forall>ch \<in> set tm. 2 \<le> length ch"
    proof
      fix ch assume ch: "ch \<in> set tm"
      from Inr show "2 \<le> length ch"
        by (auto simp: planVm_def Let_def case_prod_beta intro: computeChains_long_fst [OF _ ch])
    qed
    then have m: "doMerge w False False (vhdsToJSons (links ?p)) tm = (None, [], [])"
      by (rule doMerge_off)
    have "\<forall>j \<in> set (jsons (links ?p)). readMetadata w j \<noteq> None"
      by (auto simp: planVm_def Let_def case_prod_beta dest: crossReference_readable)
    from reconcileSizes_off [OF this]
    obtain es7 where r: "reconcileSizes w False [] (jsons (links ?p)) = (None, es7)"
      and q: "muts es7 = []"
      by (cases "reconcileSizes w False [] (jsons (links ?p))") auto
    show ?thesis
      using Inr m r q before by (simp add: cleanVm_def Let_def xvas_quiet xvaSums_quiet)
  qed
qed
  then show ?thesis by (simp add: muts_def)
qed

theorem audit_run_is_read_only_witness:
  "toMerge (planVm auditWorld False) = Inr [[Some ''/a.vhd'', Some ''/b.vhd'']] \<and>
   cleanVm auditWorld False False False =
     (Inr True,
      [Warn (ParentVhdMissing ''/gone.vhd'' ''/o.vhd''), Warn (UnusedXva ''/old.xva''),
       Warn (IncorrectBackupSize ''/delta.json'' (Some 1) 5)])"
proof -
  have run: "snd (cleanVm auditWorld False False False) =
      [Warn (ParentVhdMissing ''/gone.vhd'' ''/o.vhd''), Warn (UnusedXva ''/old.xva''),
       Warn (IncorrectBackupSize ''/delta.json'' (Some 1) 5)]"
    by (simp add: cleanVm_def planVm_def newSet_def removeBrokenVhds_def checkVhd_def afterOpen_def useVhd_def
        dedupVhd_def indexVhd_def vhdCheckFailed_def emit_def removeOrphans_def checkAllAliases_def
        crossReference_def linkMetadata_def computeChains_def usageChains_def definedChains_def
        mergeVhdChain_def deleteUnusedXvas_def deleteUnusedXvaSums_def reconcileSize_def
        checkSize_def updateSize_def computeVhdsSize_def shouldComputeVhdsSize_def
        auditWorld_def quietWorld_def Let_def eval_nat_numeral)
  have plan: "toMerge (planVm auditWorld False) = Inr [[Some ''/a.vhd'', Some ''/b.vhd'']]"
    by (simp add: planVm_def newSet_def removeBrokenVhds_def checkVhd_def afterOpen_def useVhd_def
        dedupVhd_def indexVhd_def vhdCheckFailed_def emit_def removeOrphans_def checkAllAliases_def
        crossReference_def linkMetadata_def computeChains_def usageChains_def definedChains_def
        auditWorld_def quietWorld_def Let_def eval_nat_numeral)
  show ?thesis
    using audit_run_is_read_only [of auditWorld] run plan by (simp add: prod_eq_iff)
qed

text \<open>C2, as the claim states it, fails when the parent links hold a cycle: after the scan
  of the four disks above, \<^verbatim>\<open>/z.vhd\<close> is out of the active set (second child of
  \<^verbatim>\<open>/y.vhd\<close>); pruning then removes \<^verbatim>\<open>/x.vhd\<close>, whose parent is missing, and leaves
  \<^verbatim>\<open>/y.vhd\<close>, whose parent \<^verbatim>\<open>/x.vhd\<close> is now missing, and \<^verbatim>\<open>/w.vhd\<close> above it.\<close>

theorem orphan_survives_on_cycle:
  "vhds (removeBrokenVhds cycleWorld True [] [''/x.vhd'', ''/w.vhd'', ''/z.vhd'', ''/y.vhd'']) =
     [''/x.vhd'', ''/w.vhd'', ''/y.vhd''] \<and>
   vhdParents (removeBrokenVhds cycleWorld True [] [''/x.vhd'', ''/w.vhd'', ''/z.vhd'', ''/y.vhd'']) =
     [(''/x.vhd'', ''/z.vhd''), (''/w.vhd'', ''/y.vhd''), (''/z.vhd'', ''/y.vhd''), (''/y.vhd'', ''/x.vhd'')] \<and>
   removeOrphans True
     [(''/x.vhd'', ''/z.vhd''), (''/w.vhd'', ''/y.vhd''), (''/z.vhd'', ''/y.vhd''), (''/y.vhd'', ''/x.vhd'')]
     [''/x.vhd'', ''/w.vhd'', ''/y.vhd''] =
   ([], [''/w.vhd'', ''/y.vhd''], [Warn (ParentVhdMissing ''/z.vhd'' ''/x.vhd''), Unlink ''/x.vhd'']) \<and>
   map_of [(''/x.vhd'', ''/z.vhd''), (''/w.vhd'', ''/y.vhd''), (''/z.vhd'', ''/y.vhd''), (''/y.vhd'', ''/x.vhd'')]
     ''/y.vhd'' = Some ''/x.vhd'' \<and>
   ''/x.vhd'' \<notin> set [''/w.vhd'', ''/y.vhd'']"
  by (simp add: removeOrphans_def removeBrokenVhds_def checkVhd_def afterOpen_def useVhd_def
      dedupVhd_def indexVhd_def vhdCheckFailed_def emit_def cycleWorld_def quietWorld_def Let_def)

text \<open>C2, amended. A disk is an orphan when its registered parent is not in the active set
  or is an orphan itself. Pruning never removes a disk that is not an orphan and deletes
  files of orphans only, and only under \<^verbatim>\<open>remove\<close>. When the registered parent links hold no
  cycle, the active set after pruning is the active set before it without its orphans,
  and under \<^verbatim>\<open>remove\<close> the files deleted are those of all the orphans.\<close>

theorem orphans_pruned:
  "set (fst (snd (removeOrphans remove parents vs))) \<subseteq> set vs \<and>
   (\<forall>q \<in> set vs. \<not> orphan (map_of parents) (set vs) q \<longrightarrow>
      q \<in> set (fst (snd (removeOrphans remove parents vs)))) \<and>
   (\<forall>q \<in> set (unlinked (snd (snd (removeOrphans remove parents vs)))).
      remove \<and> orphan (map_of parents) (set vs) q) \<and>
   (acyclic (parentRel parents) \<longrightarrow>
      fst (snd (removeOrphans remove parents vs)) =
        filter (\<lambda>q. \<not> orphan (map_of parents) (set vs) q) vs \<and>
      set (unlinked (snd (snd (removeOrphans remove parents vs)))) =
        {q. remove \<and> orphan (map_of parents) (set vs) q})"
proof -
  obtain ps' vs' es' where r: "foldl (deleteIfOrphan remove) (parents, vs, []) (map fst parents) = (ps', vs', es')"
    by (cases "foldl (deleteIfOrphan remove) (parents, vs, []) (map fst parents)") auto
  then have ro: "removeOrphans remove parents vs = (ps', vs', es')" by (simp add: removeOrphans_def)
  have snd: "set vs' \<subseteq> set vs" "\<forall>q \<in> set vs. \<not> orphan (map_of parents) (set vs) q \<longrightarrow> q \<in> set vs'"
    "\<forall>q \<in> set (unlinked es'). orphan (map_of parents) (set vs) q" "\<not> remove \<longrightarrow> unlinked es' = []"
  proof -
    have 1: "\<forall>k r. map_of parents k = Some r \<longrightarrow> map_of parents k = Some r" by simp
    have 2: "set vs \<subseteq> set vs" by simp
    have 3: "\<forall>q \<in> set vs. \<not> orphan (map_of parents) (set vs) q \<longrightarrow> q \<in> set vs" by simp
    have 4: "\<forall>q \<in> set (unlinked []). orphan (map_of parents) (set vs) q" by simp
    note s = foldl_deleteIfOrphan_sound [OF r 1 2 3 4]
    from s show "set vs' \<subseteq> set vs" by simp
    from s show "\<forall>q \<in> set vs. \<not> orphan (map_of parents) (set vs) q \<longrightarrow> q \<in> set vs'" by simp
    from s show "\<forall>q \<in> set (unlinked es'). orphan (map_of parents) (set vs) q" by simp
    from s show "\<not> remove \<longrightarrow> unlinked es' = []" by simp
  qed
  have ex: "vs' = filter (\<lambda>q. \<not> orphan (map_of parents) (set vs) q) vs \<and>
      set (unlinked es') = {q. remove \<and> orphan (map_of parents) (set vs) q}"
    if ac: "acyclic (parentRel parents)"
  proof -
    have inv: "vs = filter (\<lambda>q. q \<in> dom (map_of parents) \<or> \<not> orphan (map_of parents) (set vs) q) vs"
    proof -
      have "filter (\<lambda>q. q \<in> dom (map_of parents) \<or> \<not> orphan (map_of parents) (set vs) q) vs = vs"
        using orphan_dom [of "map_of parents" "set vs"] by (intro filter_True) auto
      then show ?thesis by simp
    qed
    have 1: "\<forall>k r. map_of parents k = Some r \<longrightarrow> map_of parents k = Some r" by simp
    note x = foldl_deleteIfOrphan_exact [OF r ac 1 inv]
    have e: "vs' = filter (\<lambda>q. q \<in> dom (map_of ps') \<or> \<not> orphan (map_of parents) (set vs) q) vs"
      "dom (map_of ps') \<subseteq> dom (map_of parents) - set (map fst parents)"
      "set (unlinked es') =
         {q. remove \<and> q \<in> dom (map_of parents) \<and> q \<notin> dom (map_of ps') \<and> orphan (map_of parents) (set vs) q}"
      using x by simp_all
    have "dom (map_of parents) = set (map fst parents)" by (simp add: dom_map_of_conv_image_fst)
    with e(2) have "dom (map_of ps') = {}" by blast
    then have "vs' = filter (\<lambda>q. \<not> orphan (map_of parents) (set vs) q) vs" using e(1) by simp
    moreover have "set (unlinked es') = {q. remove \<and> orphan (map_of parents) (set vs) q}"
      unfolding e(3) \<open>dom (map_of ps') = {}\<close>
      using orphan_dom [of "map_of parents" "set vs"] by (intro set_eqI) (simp, blast)
    ultimately show ?thesis by simp
  qed
  have rm: "\<forall>q \<in> set (unlinked es'). remove" using snd(4) by (cases remove) simp_all
  have su: "\<forall>q \<in> set (unlinked es'). remove \<and> orphan (map_of parents) (set vs) q"
    using snd(3) rm by blast
  show ?thesis unfolding ro fst_conv snd_conv
  proof (intro conjI impI)
    show "set vs' \<subseteq> set vs" by (rule snd(1))
    show "\<forall>q \<in> set vs. \<not> orphan (map_of parents) (set vs) q \<longrightarrow> q \<in> set vs'" by (rule snd(2))
    show "\<forall>q \<in> set (unlinked es'). remove \<and> orphan (map_of parents) (set vs) q" by (rule su)
    show "vs' = filter (\<lambda>q. \<not> orphan (map_of parents) (set vs) q) vs" if "acyclic (parentRel parents)"
      using ex [OF that] by (rule conjunct1)
    show "set (unlinked es') = {q. remove \<and> orphan (map_of parents) (set vs) q}" if "acyclic (parentRel parents)"
      using ex [OF that] by (rule conjunct2)
  qed
qed

theorem orphans_pruned_witness:
  "acyclic (parentRel [(''/b.vhd'', ''/a.vhd''), (''/c.vhd'', ''/b.vhd'')]) \<and>
   removeOrphans True [(''/b.vhd'', ''/a.vhd''), (''/c.vhd'', ''/b.vhd'')] [''/b.vhd'', ''/c.vhd''] =
     ([], [],
      [Warn (ParentVhdMissing ''/a.vhd'' ''/b.vhd''), Unlink ''/b.vhd'',
       Warn (ParentVhdMissing ''/b.vhd'' ''/c.vhd''), Unlink ''/c.vhd'']) \<and>
   orphan (map_of [(''/b.vhd'', ''/a.vhd''), (''/c.vhd'', ''/b.vhd'')]) (set [''/b.vhd'', ''/c.vhd'']) ''/c.vhd''"
proof -
  let ?ps = "[(''/b.vhd'', ''/a.vhd''), (''/c.vhd'', ''/b.vhd'')]"
  let ?vs = "[''/b.vhd'', ''/c.vhd'']"
  have ob: "orphan (map_of ?ps) (set ?vs) ''/b.vhd''"
    by (rule orphan.parent_missing [of _ _ "''/a.vhd''"]) simp_all
  have oc: "orphan (map_of ?ps) (set ?vs) ''/c.vhd''"
    by (rule orphan.parent_orphan [OF _ ob]) simp
  have ev: "removeOrphans True ?ps ?vs =
     ([], [],
      [Warn (ParentVhdMissing ''/a.vhd'' ''/b.vhd''), Unlink ''/b.vhd'',
       Warn (ParentVhdMissing ''/b.vhd'' ''/c.vhd''), Unlink ''/c.vhd''])"
    by (simp add: removeOrphans_def)
  show ?thesis using orphans_pruned [of True ?ps ?vs] chain_of_three_acyclic ob oc ev by simp
qed




text \<open>C4: when the walk over the unused disks has returned, every disk \<open>p\<close> that still has
  a marker gets the chain \<^verbatim>\<open>[vhdChildren[p], p]\<close> in \<^verbatim>\<open>toMerge\<close>; the keys of the table are
  distinct and the entry under \<open>p\<close> is this chain, whatever the walk had stored there;
  the entries under the disks without a marker are those of the walk.\<close>

theorem interrupted_chain_forced:
  assumes "usageChains d remove U C = (None, c)" and "p \<in> set ks"
  shows "computeChains d remove U C ks =
           (Inr (definedChains (forceInterrupted C (vhdChainsToMerge c) ks)), deletions c) \<and>
         [C p, Some p] \<in> set (definedChains (forceInterrupted C (vhdChainsToMerge c) ks)) \<and>
         distinct (map fst (forceInterrupted C (vhdChainsToMerge c) ks)) \<and>
         map_of (forceInterrupted C (vhdChainsToMerge c) ks) p = Some (Some [C p, Some p]) \<and>
         (\<forall>k. k \<notin> set ks \<longrightarrow>
            map_of (forceInterrupted C (vhdChainsToMerge c) ks) k = map_of (vhdChainsToMerge c) k)"
proof -
  let ?T = "forceInterrupted C (vhdChainsToMerge c) ks"
  have m: "map_of ?T p = Some (Some [C p, Some p])"
    using assms(2) by (simp add: force_map_of)
  then have "(p, Some [C p, Some p]) \<in> set ?T" by (rule map_of_SomeD)
  then have "[C p, Some p] \<in> set (definedChains ?T)"
    unfolding definedChains_set by blast
  moreover have "distinct (map fst (vhdChainsToMerge c))"
    using assms(1) unfolding usageChains_def by (rule checkUnused_distinct) simp
  then have "distinct (map fst ?T)" by (rule force_distinct)
  ultimately show ?thesis using m assms(1) by (simp add: computeChains_def force_map_of)
qed

theorem interrupted_chain_forced_witness:
  "usageChains 3 False [''/a.vhd''] [''/a.vhd'' \<mapsto> ''/b.vhd''] =
     (None, \<lparr>vhdChainsToMerge = [(''/a.vhd'', Some [Some ''/a.vhd'', Some ''/b.vhd''])],
             toCheck = [], deletions = []\<rparr>) \<and>
   computeChains 3 False [''/a.vhd''] [''/a.vhd'' \<mapsto> ''/b.vhd''] [''/a.vhd''] =
     (Inr [[Some ''/b.vhd'', Some ''/a.vhd'']], [])"
proof -
  have h: "usageChains 3 False [''/a.vhd''] [''/a.vhd'' \<mapsto> ''/b.vhd''] =
     (None, \<lparr>vhdChainsToMerge = [(''/a.vhd'', Some [Some ''/a.vhd'', Some ''/b.vhd''])],
             toCheck = [], deletions = []\<rparr>)"
    by (simp add: usageChains_def numeral_3_eq_3)
  show ?thesis
    using h interrupted_chain_forced [OF h, of "''/a.vhd''" "[''/a.vhd'']"]
    by (simp add: definedChains_def)
qed

text \<open>C5 says that of two disks with the same UUID the one that holds all the data of the
  other is kept, and that neither is removed when neither holds the data of the other.
  The code does not do this: whenever the index already holds a disk under the UUID,
  the disk visited second leaves the active set and the first stays indexed
  (\<open>duplicate_always_first_branch\<close>), because the callback tests the Promise itself. Here
  \<^verbatim>\<open>/y.vhd\<close> holds all the data of \<^verbatim>\<open>/x.vhd\<close>, \<^verbatim>\<open>/x.vhd\<close> does not hold the data of
  \<^verbatim>\<open>/y.vhd\<close>, and it is \<^verbatim>\<open>/y.vhd\<close> that leaves.\<close>

theorem duplicate_keeps_first_visited:
  "containsAllDataOf twinWorld
     (''/y.vhd'', \<lparr>diskType = DYNAMIC, footer_uuid = Some ''u'', parentName = ''''\<rparr>)
     (''/x.vhd'', \<lparr>diskType = DYNAMIC, footer_uuid = Some ''u'', parentName = ''''\<rparr>) =
     Promise True \<and>
   containsAllDataOf twinWorld
     (''/x.vhd'', \<lparr>diskType = DYNAMIC, footer_uuid = Some ''u'', parentName = ''''\<rparr>)
     (''/y.vhd'', \<lparr>diskType = DYNAMIC, footer_uuid = Some ''u'', parentName = ''''\<rparr>) =
     Promise False \<and>
   vhds (removeBrokenVhds twinWorld True [] [''/x.vhd'', ''/y.vhd'']) = [''/x.vhd''] \<and>
   vhdById (removeBrokenVhds twinWorld True [] [''/x.vhd'', ''/y.vhd'']) ''u'' =
     Some (''/x.vhd'', \<lparr>diskType = DYNAMIC, footer_uuid = Some ''u'', parentName = ''''\<rparr>) \<and>
   trace (removeBrokenVhds twinWorld True [] [''/x.vhd'', ''/y.vhd'']) =
     [Warn (UuidDuplicated ''u''), Warn (ShouldDelete ''/y.vhd'')]"
  by (simp add: removeBrokenVhds_def checkVhd_def afterOpen_def useVhd_def dedupVhd_def
      indexVhd_def emit_def twinWorld_def quietWorld_def)




text \<open>C7: \<^verbatim>\<open>openVhd\<close> is asked to check the second footer exactly when the disk has no
  marker of an interrupted merge. When it fails, the disk is taken out of the active set
  and a warning is logged; the file is deleted when the error is an assertion error and
  \<^verbatim>\<open>remove\<close> is set, and in no other case.\<close>

theorem open_check_and_failure:
  "checkVhd w remove iv s p = afterOpen w remove s p (openVhd w (p \<notin> fst ` set iv) p) \<and>
   afterOpen w remove s p (Inl e) =
     s\<lparr>vhds := removeAll p (vhds s),
       trace := trace s @ Warn (VhdCheckError p (OpenError e)) #
                (if e = ERR_ASSERTION \<and> remove then [Unlink p] else [])\<rparr> \<and>
   p \<notin> set (vhds (afterOpen w remove s p (Inl e))) \<and>
   unlinked (trace (afterOpen w remove s p (Inl e))) =
     unlinked (trace s) @ (if e = ERR_ASSERTION \<and> remove then [p] else [])"
  by (simp add: checkVhd_def no_marker afterOpen_def vhdCheckFailed_def emit_def unlinked_append)

text \<open>C8, as the claim states it, fails: of two differencing disks with the same parent,
  the one visited second is taken out of the active set, although \<^verbatim>\<open>openVhd\<close> succeeded
  on it.\<close>

theorem second_child_dropped:
  "openVhd forkWorld True ''/c.vhd'' =
     Inr \<lparr>diskType = DIFFERENCING, footer_uuid = Some ''/c.vhd'', parentName = ''/a.vhd''\<rparr> \<and>
   vhds (removeBrokenVhds forkWorld False [] [''/a.vhd'', ''/b.vhd'', ''/c.vhd'']) =
     [''/a.vhd'', ''/b.vhd'']"
  by (simp add: removeBrokenVhds_def checkVhd_def afterOpen_def useVhd_def dedupVhd_def indexVhd_def
      vhdCheckFailed_def emit_def forkWorld_def quietWorld_def Let_def)

text \<open>C8, amended: when a differencing disk opens and its parent already has a registered
  child, the only event is a warning whose error names the parent and both children; no
  file is deleted and the first child stays registered as the child of the parent; the
  disk visited second keeps its entry in \<^verbatim>\<open>vhdParents\<close> and is taken out of the active
  set.\<close>

theorem multiple_children_conflict:
  assumes "openVhd w (p \<notin> fst ` set iv) p = Inr m" and "diskType m = DIFFERENCING"
    and "vhdChildren s (parentName m) = Some child1"
  shows "checkVhd w remove iv s p =
           s\<lparr>vhds := removeAll p (vhds s),
             vhdParents := AList.update p (parentName m) (vhdParents s),
             trace := trace s @
               [Warn (VhdCheckError p (MultipleChildren (parentName m) child1 p))]\<rparr> \<and>
         unlinked (trace (checkVhd w remove iv s p)) = unlinked (trace s) \<and>
         vhdChildren (checkVhd w remove iv s p) (parentName m) = Some child1"
  using assms
  by (simp add: checkVhd_def no_marker afterOpen_def useVhd_def vhdCheckFailed_def emit_def
      Let_def unlinked_append)

theorem multiple_children_conflict_witness:
  "trace (checkVhd forkWorld True []
       (removeBrokenVhds forkWorld True [] [''/a.vhd'', ''/b.vhd'']
          \<lparr>vhds := [''/a.vhd'', ''/b.vhd'', ''/c.vhd'']\<rparr>)
       ''/c.vhd'') =
     [Warn (VhdCheckError ''/c.vhd'' (MultipleChildren ''/a.vhd'' ''/b.vhd'' ''/c.vhd''))] \<and>
   vhds (checkVhd forkWorld True []
       (removeBrokenVhds forkWorld True [] [''/a.vhd'', ''/b.vhd'']
          \<lparr>vhds := [''/a.vhd'', ''/b.vhd'', ''/c.vhd'']\<rparr>)
       ''/c.vhd'') = [''/a.vhd'', ''/b.vhd'']"
proof -
  let ?m = "\<lparr>diskType = DIFFERENCING, footer_uuid = Some ''/c.vhd'', parentName = ''/a.vhd''\<rparr>"
  let ?s = "removeBrokenVhds forkWorld True [] [''/a.vhd'', ''/b.vhd'']
              \<lparr>vhds := [''/a.vhd'', ''/b.vhd'', ''/c.vhd'']\<rparr>"
  have s: "removeBrokenVhds forkWorld True [] [''/a.vhd'', ''/b.vhd''] =
     \<lparr>vhds = [''/a.vhd'', ''/b.vhd''],
      vhdById = [''/a.vhd'' \<mapsto> (''/a.vhd'', \<lparr>diskType = DYNAMIC, footer_uuid = Some ''/a.vhd'', parentName = ''''\<rparr>),
                 ''/b.vhd'' \<mapsto> (''/b.vhd'', \<lparr>diskType = DIFFERENCING, footer_uuid = Some ''/b.vhd'', parentName = ''/a.vhd''\<rparr>)],
      vhdParents = [(''/b.vhd'', ''/a.vhd'')],
      vhdChildren = [''/a.vhd'' \<mapsto> ''/b.vhd''], trace = []\<rparr>"
    by (simp add: removeBrokenVhds_def checkVhd_def afterOpen_def useVhd_def dedupVhd_def indexVhd_def
        forkWorld_def quietWorld_def Let_def)
  have 1: "openVhd forkWorld (''/c.vhd'' \<notin> fst ` set []) ''/c.vhd'' = Inr ?m"
    by (simp add: forkWorld_def quietWorld_def)
  have 2: "diskType ?m = DIFFERENCING" by simp
  have 3: "vhdChildren ?s (parentName ?m) = Some ''/b.vhd''"
    by (simp add: s)
  show ?thesis
    using multiple_children_conflict [OF 1 2 3, of True]
    by (simp add: s)
qed

text \<open>C9: a marker of an interrupted merge whose disk is not in the active set after
  validation is taken out of \<^verbatim>\<open>interruptedVhds\<close>, and a marker whose disk is there stays;
  the state files of the markers taken out are deleted when \<^verbatim>\<open>remove\<close> is set and no file
  is deleted otherwise; the chains forced later are those of the markers that stay.\<close>

theorem orphan_merge_states_removed:
  "fst (removeOrphanMergeStates remove vs iv) = filter (\<lambda>e. fst e \<in> set vs) iv \<and>
   unlinked (snd (removeOrphanMergeStates remove vs iv)) =
     (if remove then map snd (filter (\<lambda>e. fst e \<notin> set vs) iv) else []) \<and>
   forceInterrupted C tbl (map fst (fst (removeOrphanMergeStates remove vs iv))) =
     forceInterrupted C tbl (filter (\<lambda>k. k \<in> set vs) (map fst iv))"
  by (simp add: roms_fst roms_snd filter_map comp_def)

text \<open>C10: every chain that the computation of \<^verbatim>\<open>toMerge\<close> returns, from the unused disks
  or from an interrupted merge, has at least two elements, and \<^verbatim>\<open>mergeVhdChain\<close> does not
  fail its assertion on it.\<close>

theorem merge_chains_have_two:
  "computeChains d remove U C ks = (Inr tm, es) \<Longrightarrow> ch \<in> set tm \<Longrightarrow>
     2 \<le> length ch \<and> fst (mergeVhdChain w remove' merge ch) \<noteq> Inl AssertionFailed"
  by (frule (1) computeChains_long)
     (auto simp: mergeVhdChain_def split: list.splits option.splits)

theorem merge_chains_have_two_witness:
  "computeChains 3 False [''/a.vhd''] [''/a.vhd'' \<mapsto> ''/b.vhd''] [''/a.vhd''] =
     (Inr [[Some ''/b.vhd'', Some ''/a.vhd'']], []) \<and>
   2 \<le> length [Some ''/b.vhd'', Some ''/a.vhd''] \<and>
   fst (mergeVhdChain quietWorld False True [Some ''/b.vhd'', Some ''/a.vhd''])
     \<noteq> Inl AssertionFailed"
proof -
  have h: "computeChains 3 False [''/a.vhd''] [''/a.vhd'' \<mapsto> ''/b.vhd''] [''/a.vhd''] =
     (Inr [[Some ''/b.vhd'', Some ''/a.vhd'']], [])"
    by (simp add: computeChains_def usageChains_def definedChains_def numeral_3_eq_3)
  show ?thesis
    using h merge_chains_have_two [OF h, of "[Some ''/b.vhd'', Some ''/a.vhd'']" quietWorld False True]
    by simp
qed

end
